theory Spec2Isabelle
  imports Main "HOL-Library.Word"
begin

section \<open>NetworkClient: the framed transport endpoint of src/net/NetworkClient.cpp\<close>

text \<open>
  The endpoint is modelled by explicit state passing. The record \<open>NetworkClient\<close> holds the
  member variables of the class, the state of the transport that the endpoint can observe
  (whether the socket is open, which asynchronous read is outstanding) and the list of
  calls that the endpoint has made to its collaborators (\<open>calls\<close>): the handler callbacks
  \<open>receive_datagram\<close> and \<open>receive_disconnect\<close>, and the reads, writes and closes on the socket.

  Everything the endpoint cannot decide itself is an input: the outcome of an asynchronous
  read (error code and bytes transferred), whether starting a read throws, whether the
  gathered write throws, and what the two endpoint queries at bind time report.

  Each public operation and each completion handler runs from start to end before the next
  one begins (every one of them holds the lock of the endpoint or runs on the reactor).
  The handler callbacks are recorded and do not call back into the endpoint. Closing the
  socket and setting the socket options succeed. The destructor is not modelled.
\<close>

subsection \<open>Bytes, error codes and the length prefix\<close>

type_synonym byte = "8 word"

text \<open>
  \<open>boost::system::error_code\<close>: a value and a category. A default-constructed code is
  \<open>(0, system_category)\<close>; \<open>if(ec)\<close> tests that the value is not zero.
\<close>

datatype error_category = system_category | other_category nat

datatype error_code = error_code (ec_value: int) (ec_category: error_category)

definition no_error :: error_code where
  "no_error = error_code 0 system_category"

definition failed :: "error_code \<Rightarrow> bool" where
  "failed ec = (ec_value ec \<noteq> 0)"

text \<open>\<open>boost::system::errc::broken_pipe\<close> is the POSIX value \<open>EPIPE\<close>.\<close>

definition broken_pipe :: int where
  "broken_pipe = 32"

definition epipe :: error_code where
  "epipe = error_code broken_pipe system_category"

text \<open>
  Modelled from the spec: \<open>dgsize_t\<close> and \<open>swap_le\<close> are declared in core/global.h and its
  includes, which are not part of the sources at hand. The spec fixes the prefix as an
  unsigned integer of a fixed width in little-endian byte order. The width in bytes,
  \<open>sizeof(dgsize_t)\<close>, is the parameter \<open>W\<close> of every function below; a \<open>dgsize_t\<close> is a
  natural number below \<open>256 ^ W\<close>. \<open>le_encode W n\<close> is the object representation of
  \<open>swap_le(n)\<close> after the conversion of \<open>n\<close> to \<open>dgsize_t\<close> (which drops the high bytes),
  and \<open>le_decode\<close> is \<open>swap_le\<close> of the \<open>dgsize_t\<close> read from a byte buffer.
\<close>

fun le_encode :: "nat \<Rightarrow> nat \<Rightarrow> byte list" where
  "le_encode 0 n = []"
| "le_encode (Suc k) n = of_nat n # le_encode k (n div 256)"

fun le_decode :: "byte list \<Rightarrow> nat" where
  "le_decode [] = 0"
| "le_decode (b # bs) = unat b + 256 * le_decode bs"

subsection \<open>The state of an endpoint\<close>

text \<open>The two completion handlers that \<open>socket_read\<close> is called with (\<open>receive_handler_t\<close>).\<close>

datatype receive_handler_t = ReceiveSize | ReceiveData

text \<open>The two buffers that a read can fill.\<close>

datatype buffer = SizeBuf | DataBuf

text \<open>The calls the endpoint makes to its handler and to its socket, in order.\<close>

datatype call =
    ReadIssued buffer nat receive_handler_t
  | ReceiveDatagram "byte list"
  | ReceiveDisconnect error_code
  | SocketClose
  | SocketWrite "byte list"

text \<open>
  \<open>m_socket\<close> and \<open>m_secure_socket\<close> record whether the pointer is set. \<open>m_data_buf\<close> is
  \<open>None\<close> for the null pointer and otherwise the contents of the allocated array, whose
  length is the allocated size. \<open>m_size_buf\<close> is an array of \<open>sizeof(dgsize_t)\<close> bytes; its
  contents before the first read are indeterminate and modelled as zeros. \<open>socket_open\<close> is what \<open>m_socket->is_open()\<close> returns, and
  \<open>pending_read\<close> is the asynchronous read that has been started and has not completed.
\<close>

record NetworkClient =
  m_socket :: bool
  m_secure_socket :: bool
  m_remote :: nat
  m_local :: nat
  m_ssl_enabled :: bool
  m_disconnect_handled :: bool
  m_local_disconnect :: bool
  m_disconnect_error :: error_code
  m_size_buf :: "byte list"
  m_data_buf :: "byte list option"
  m_data_size :: nat
  m_is_data :: bool
  socket_open :: bool
  keep_alive :: bool
  no_delay :: bool
  non_blocking :: bool
  pending_read :: "(buffer \<times> nat \<times> receive_handler_t) option"
  calls :: "call list"

text \<open>The constructor and the default member initialisers of the header.\<close>

definition NetworkClient_new :: "nat \<Rightarrow> NetworkClient" where
  "NetworkClient_new W =
     \<lparr> m_socket = False, m_secure_socket = False, m_remote = 0, m_local = 0,
       m_ssl_enabled = False, m_disconnect_handled = False, m_local_disconnect = False,
       m_disconnect_error = no_error, m_size_buf = replicate W 0, m_data_buf = None,
       m_data_size = 0, m_is_data = False, socket_open = False, keep_alive = False,
       no_delay = False, non_blocking = False, pending_read = None, calls = [] \<rparr>"

text \<open>The allocated size of the payload buffer.\<close>

definition capacity :: "NetworkClient \<Rightarrow> nat" where
  "capacity s = (case m_data_buf s of None \<Rightarrow> 0 | Some b \<Rightarrow> length b)"

subsection \<open>Disconnecting\<close>

definition is_connected :: "NetworkClient \<Rightarrow> bool" where
  "is_connected s = socket_open s"

text \<open>\<open>m_socket->close()\<close>.\<close>

definition socket_close :: "NetworkClient \<Rightarrow> NetworkClient" where
  "socket_close s = s\<lparr>socket_open := False, calls := calls s @ [SocketClose]\<rparr>"

definition disconnect :: "error_code \<Rightarrow> NetworkClient \<Rightarrow> NetworkClient" where
  "disconnect ec s =
     socket_close (s\<lparr>m_local_disconnect := True, m_disconnect_error := ec\<rparr>)"

definition receive_disconnect :: "error_code \<Rightarrow> NetworkClient \<Rightarrow> NetworkClient" where
  "receive_disconnect ec s = s\<lparr>calls := calls s @ [ReceiveDisconnect ec]\<rparr>"

definition handle_disconnect :: "error_code \<Rightarrow> NetworkClient \<Rightarrow> NetworkClient" where
  "handle_disconnect ec s =
     (if m_disconnect_handled s then s
      else
        let s1 = s\<lparr>m_disconnect_handled := True\<rparr>;
            s2 = (if is_connected s1 then socket_close s1 else s1)
        in if m_local_disconnect s2 then receive_disconnect (m_disconnect_error s2) s2
           else receive_disconnect ec s2)"

subsection \<open>The receive loop\<close>

text \<open>
  \<open>socket_read\<close> starts an asynchronous read of \<open>len\<close> bytes into a buffer. The argument
  \<open>thr\<close> is what starting the read does: \<open>None\<close> when the transport accepts the read,
  \<open>Some e\<close> when it throws \<open>system_error\<close> with code \<open>e\<close>. Both variants of the transport
  (plain and secure) start the same read.
\<close>

definition socket_read ::
  "buffer \<Rightarrow> nat \<Rightarrow> receive_handler_t \<Rightarrow> error_code option \<Rightarrow> NetworkClient
     \<Rightarrow> error_code + NetworkClient" where
  "socket_read buf len callback thr s =
     (case thr of
        Some e \<Rightarrow> Inl e
      | None \<Rightarrow> Inr (s\<lparr>pending_read := Some (buf, len, callback),
                       calls := calls s @ [ReadIssued buf len callback]\<rparr>))"

definition async_receive :: "nat \<Rightarrow> error_code option \<Rightarrow> NetworkClient \<Rightarrow> NetworkClient" where
  "async_receive W thr s =
     (case (if m_is_data s then socket_read DataBuf (m_data_size s) ReceiveData thr s
            else socket_read SizeBuf W ReceiveSize thr s) of
        Inr s' \<Rightarrow> s'
      | Inl e \<Rightarrow> disconnect e s)"

text \<open>\<open>new uint8_t[n]\<close>: the contents are indeterminate; the model fills the array with zeros.\<close>

definition new_array :: "nat \<Rightarrow> byte list" where
  "new_array n = replicate n 0"

definition receive_size ::
  "nat \<Rightarrow> error_code \<Rightarrow> nat \<Rightarrow> error_code option \<Rightarrow> NetworkClient \<Rightarrow> NetworkClient" where
  "receive_size W ec bytes_transferred thr s =
     (if failed ec then handle_disconnect ec s
      else if bytes_transferred \<noteq> W then handle_disconnect epipe s
      else
        let old_size = m_data_size s;
            s1 = s\<lparr>m_data_size := le_decode (m_size_buf s)\<rparr>;
            s2 = (if m_data_size s1 > old_size
                  then s1\<lparr>m_data_buf := Some (new_array (m_data_size s1))\<rparr> else s1);
            s3 = s2\<lparr>m_is_data := True\<rparr>
        in async_receive W thr s3)"

text \<open>
  \<open>Datagram::create(buf, size)\<close> copies the first \<open>size\<close> bytes of the buffer. The copy stays
  inside the buffer because \<open>m_data_size\<close> never exceeds the allocated size (\<open>client_inv\<close>).
\<close>

definition Datagram_create :: "byte list option \<Rightarrow> nat \<Rightarrow> byte list" where
  "Datagram_create buf n = take n (case buf of None \<Rightarrow> [] | Some b \<Rightarrow> b)"

definition receive_datagram :: "byte list \<Rightarrow> NetworkClient \<Rightarrow> NetworkClient" where
  "receive_datagram dg s = s\<lparr>calls := calls s @ [ReceiveDatagram dg]\<rparr>"

definition receive_data ::
  "nat \<Rightarrow> error_code \<Rightarrow> nat \<Rightarrow> error_code option \<Rightarrow> NetworkClient \<Rightarrow> NetworkClient" where
  "receive_data W ec bytes_transferred thr s =
     (if failed ec then handle_disconnect ec s
      else if bytes_transferred \<noteq> m_data_size s then handle_disconnect epipe s
      else
        let dg = Datagram_create (m_data_buf s) (m_data_size s);
            s1 = s\<lparr>m_is_data := False\<rparr>;
            s2 = receive_datagram dg s1
        in async_receive W thr s2)"

text \<open>
  The reactor completes the outstanding read: it has transferred the bytes \<open>got\<close> (never
  more than were asked for) into the front of the buffer, and calls the handler with the
  error code and the number of bytes. Without an outstanding read there is nothing to
  complete. A read never asks for more bytes than its buffer holds (\<open>client_inv\<close>), so
  \<open>fill\<close> keeps the length of the buffer.
\<close>

definition fill :: "byte list \<Rightarrow> byte list \<Rightarrow> byte list" where
  "fill got b = got @ drop (length got) b"

definition store :: "buffer \<Rightarrow> byte list \<Rightarrow> NetworkClient \<Rightarrow> NetworkClient" where
  "store buf got s =
     (case buf of
        SizeBuf \<Rightarrow> s\<lparr>m_size_buf := fill got (m_size_buf s)\<rparr>
      | DataBuf \<Rightarrow> s\<lparr>m_data_buf := map_option (fill got) (m_data_buf s)\<rparr>)"

definition read_completion ::
  "nat \<Rightarrow> error_code \<Rightarrow> byte list \<Rightarrow> error_code option \<Rightarrow> NetworkClient \<Rightarrow> NetworkClient" where
  "read_completion W ec data thr s =
     (case pending_read s of
        None \<Rightarrow> s
      | Some (buf, len, callback) \<Rightarrow>
          let got = take len data;
              s1 = (store buf got s)\<lparr>pending_read := None\<rparr>
          in (case callback of
                ReceiveSize \<Rightarrow> receive_size W ec (length got) thr s1
              | ReceiveData \<Rightarrow> receive_data W ec (length got) thr s1))"

subsection \<open>Binding a transport\<close>

text \<open>
  \<open>remote_endpoint(ec)\<close> and \<open>local_endpoint(ec)\<close> each return an address and assign \<open>ec\<close>:
  the second call overwrites what the first one reported.
\<close>

definition determine_endpoints ::
  "nat \<times> error_code \<Rightarrow> nat \<times> error_code \<Rightarrow> NetworkClient \<Rightarrow> bool \<times> NetworkClient" where
  "determine_endpoints remote local s =
     (let s1 = s\<lparr>m_remote := fst remote\<rparr>;
          ec = snd remote;
          s2 = s1\<lparr>m_local := fst local\<rparr>;
          ec = snd local
      in if failed ec then (False, disconnect ec s2) else (True, s2))"

datatype failure = LogicError | NullSocket

text \<open>
  \<open>initialize(tcp::socket*)\<close>. The socket handed over is connected, hence open.
\<close>

definition initialize ::
  "nat \<Rightarrow> nat \<times> error_code \<Rightarrow> nat \<times> error_code \<Rightarrow> error_code option \<Rightarrow> NetworkClient
     \<Rightarrow> failure + NetworkClient" where
  "initialize W remote local thr s =
     (if m_socket s then Inl LogicError
      else
        let s1 = s\<lparr>m_socket := True, socket_open := True\<rparr>;
            s2 = s1\<lparr>keep_alive := True\<rparr>;
            s3 = s2\<lparr>no_delay := True\<rparr>
        in case determine_endpoints remote local s3 of
             (True, s4) \<Rightarrow> Inr (async_receive W thr s4)
           | (False, s4) \<Rightarrow> Inr s4)"

text \<open>\<open>initialize(ssl::stream<tcp::socket>*)\<close>.\<close>

definition initialize_ssl ::
  "nat \<Rightarrow> nat \<times> error_code \<Rightarrow> nat \<times> error_code \<Rightarrow> error_code option \<Rightarrow> NetworkClient
     \<Rightarrow> failure + NetworkClient" where
  "initialize_ssl W remote local thr s =
     (if m_socket s then Inl LogicError
      else initialize W remote local thr (s\<lparr>m_ssl_enabled := True, m_secure_socket := True\<rparr>))"

subsection \<open>Sending\<close>

text \<open>
  What the \<open>try\<close> block of \<open>send_datagram\<close> does: the switch to non-blocking mode throws,
  or the gathered write throws, or both succeed.
\<close>

datatype write_outcome = WriteOk | NonBlockingThrows error_code | WriteThrows error_code

definition send_datagram :: "nat \<Rightarrow> byte list \<Rightarrow> write_outcome \<Rightarrow> NetworkClient \<Rightarrow> NetworkClient" where
  "send_datagram W dg out s =
     (let len = le_encode W (length dg)
      in case out of
           NonBlockingThrows e \<Rightarrow> disconnect e s
         | WriteThrows e \<Rightarrow> disconnect e (s\<lparr>non_blocking := True\<rparr>)
         | WriteOk \<Rightarrow>
             (let s1 = s\<lparr>non_blocking := True\<rparr>
              in s1\<lparr>calls := calls s1 @ [SocketWrite (len @ dg)]\<rparr>))"

text \<open>The error code that the \<open>try\<close> block of \<open>send_datagram\<close> throws, if any.\<close>

definition thrown :: "write_outcome \<Rightarrow> error_code option" where
  "thrown out = (case out of WriteOk \<Rightarrow> None | NonBlockingThrows e \<Rightarrow> Some e | WriteThrows e \<Rightarrow> Some e)"

subsection \<open>The life of an endpoint\<close>

text \<open>
  An endpoint is driven by the calls of its owner and by the reactor. Calling
  \<open>send_datagram\<close> or \<open>disconnect\<close> before a socket is bound dereferences a null pointer;
  the model stops there with \<open>NullSocket\<close>. The \<open>logic_error\<close> of a second \<open>initialize\<close> is
  thrown before anything is changed, so the endpoint lives on unchanged.
\<close>

datatype event =
    Initialize "nat \<times> error_code" "nat \<times> error_code" "error_code option"
  | InitializeSsl "nat \<times> error_code" "nat \<times> error_code" "error_code option"
  | SendDatagram "byte list" write_outcome
  | Disconnect
  | DisconnectWith error_code
  | ReadCompletion error_code "byte list" "error_code option"

fun step :: "nat \<Rightarrow> event \<Rightarrow> NetworkClient \<Rightarrow> failure + NetworkClient" where
  "step W (Initialize remote local thr) s = initialize W remote local thr s"
| "step W (InitializeSsl remote local thr) s = initialize_ssl W remote local thr s"
| "step W (SendDatagram dg out) s =
     (if m_socket s then Inr (send_datagram W dg out s) else Inl NullSocket)"
| "step W Disconnect s =
     (if m_socket s then Inr (disconnect no_error s) else Inl NullSocket)"
| "step W (DisconnectWith ec) s =
     (if m_socket s then Inr (disconnect ec s) else Inl NullSocket)"
| "step W (ReadCompletion ec data thr) s = Inr (read_completion W ec data thr s)"

fun run :: "nat \<Rightarrow> event list \<Rightarrow> NetworkClient \<Rightarrow> failure + NetworkClient" where
  "run W [] s = Inr s"
| "run W (e # es) s =
     (case step W e s of
        Inr s' \<Rightarrow> run W es s'
      | Inl LogicError \<Rightarrow> run W es s
      | Inl NullSocket \<Rightarrow> Inl NullSocket)"

subsection \<open>Observations and the invariant of the endpoint\<close>

text \<open>
  \<open>notifications\<close> counts the calls of \<open>receive_disconnect\<close>. \<open>socket_only\<close> holds of the calls
  that go to the socket and involve neither the handler nor a new read. \<open>expected_read\<close> is
  the read that \<open>async_receive\<close> starts in a state, and \<open>client_inv\<close> collects what holds
  of every state that an endpoint can reach.
\<close>

fun is_notification :: "call \<Rightarrow> bool" where
  "is_notification (ReceiveDisconnect ec) = True"
| "is_notification c = False"

definition notifications :: "NetworkClient \<Rightarrow> nat" where
  "notifications s = length (filter is_notification (calls s))"

fun socket_only :: "call \<Rightarrow> bool" where
  "socket_only SocketClose = True"
| "socket_only (SocketWrite bs) = True"
| "socket_only c = False"

definition expected_read :: "nat \<Rightarrow> NetworkClient \<Rightarrow> buffer \<times> nat \<times> receive_handler_t" where
  "expected_read W s =
     (if m_is_data s then (DataBuf, m_data_size s, ReceiveData) else (SizeBuf, W, ReceiveSize))"

definition client_inv :: "nat \<Rightarrow> NetworkClient \<Rightarrow> bool" where
  "client_inv W s =
     (length (m_size_buf s) = W \<and> m_data_size s \<le> capacity s \<and>
      (pending_read s = None \<or>
         pending_read s = Some (expected_read W s) \<and> m_socket s \<and> \<not> m_disconnect_handled s) \<and>
      notifications s = (if m_disconnect_handled s then 1 else 0) \<and>
      (m_socket s \<or> \<not> m_disconnect_handled s \<and> \<not> m_local_disconnect s) \<and>
      socket_open s = (m_socket s \<and> \<not> m_local_disconnect s \<and> \<not> m_disconnect_handled s))"

subsection \<open>An error-free byte stream\<close>

text \<open>
  The reactor on an error-free stream: as long as the stream holds the bytes that the
  outstanding read asks for, the read completes in full with exactly these bytes and the
  handler runs; the rest of the stream waits for the next read. A read of no bytes
  completes at once. When the stream holds fewer bytes than asked for, the read stays
  outstanding. The prefix has at least one byte (\<open>0 < W\<close>), and then the loop ends: each
  completed prefix read consumes bytes, and each completed payload read is followed by a
  prefix read.
\<close>

definition stream_measure :: "nat \<times> byte list \<times> NetworkClient \<Rightarrow> nat" where
  "stream_measure = (\<lambda>(W, stream, s).
     case pending_read s of
       None \<Rightarrow> 0
     | Some (buf, len, callback) \<Rightarrow>
         1 + 2 * length stream + (case callback of ReceiveData \<Rightarrow> 1 | ReceiveSize \<Rightarrow> 0))"

function receive_stream :: "nat \<Rightarrow> byte list \<Rightarrow> NetworkClient \<Rightarrow> NetworkClient" where
  "receive_stream W stream s =
     (case pending_read s of
        None \<Rightarrow> s
      | Some (buf, len, callback) \<Rightarrow>
          if W = 0 \<or> length stream < len then s
          else receive_stream W (drop len stream)
                 (read_completion W no_error (take len stream) None s))"
  by pat_completeness auto
termination
proof (relation "measure stream_measure")
  show "wf (measure stream_measure)" by simp
next
  fix W :: nat and stream :: "byte list" and s :: NetworkClient and x2 buf y len callback
  assume a: "pending_read s = Some x2" "(buf, y) = x2" "(len, callback) = y"
    "\<not> (W = 0 \<or> length stream < len)"
  then have p: "pending_read s = Some (buf, len, callback)" and w: "0 < W" "len \<le> length stream"
    by auto
  have "stream_measure (W, drop len stream, read_completion W no_error (take len stream) None s)
        < stream_measure (W, stream, s)"
  proof (cases callback)
    case ReceiveSize
    with p w show ?thesis
      by (cases buf)
        (auto simp: stream_measure_def read_completion_def store_def receive_size_def
          handle_disconnect_def receive_disconnect_def socket_close_def is_connected_def
          async_receive_def socket_read_def Let_def min_def)
  next
    case ReceiveData
    with p w show ?thesis
      by (cases buf)
        (auto simp: stream_measure_def read_completion_def store_def receive_data_def
          receive_datagram_def handle_disconnect_def receive_disconnect_def socket_close_def
          is_connected_def async_receive_def socket_read_def Let_def min_def)
  qed
  then show "((W, drop len stream, read_completion W no_error (take len stream) None s),
              (W, stream, s)) \<in> measure stream_measure"
    by simp
qed

declare receive_stream.simps [simp del]

text \<open>
  The wire format of one message: what \<open>send_datagram\<close> writes. \<open>message_events\<close> are the two
  completions that deliver a message to an endpoint that waits for a prefix, and
  \<open>message_calls\<close> are the calls that the endpoint makes in response. \<open>after_message\<close> is
  the state after both completions.
\<close>

definition frame :: "nat \<Rightarrow> byte list \<Rightarrow> byte list" where
  "frame W m = le_encode W (length m) @ m"

definition message_events :: "nat \<Rightarrow> byte list \<Rightarrow> event list" where
  "message_events W m =
     [ReadCompletion no_error (le_encode W (length m)) None, ReadCompletion no_error m None]"

definition message_calls :: "nat \<Rightarrow> byte list \<Rightarrow> call list" where
  "message_calls W m =
     [ReadIssued DataBuf (length m) ReceiveData, ReceiveDatagram m, ReadIssued SizeBuf W ReceiveSize]"

definition after_message :: "nat \<Rightarrow> byte list \<Rightarrow> NetworkClient \<Rightarrow> NetworkClient" where
  "after_message W m s =
     read_completion W no_error m None (read_completion W no_error (le_encode W (length m)) None s)"

subsection \<open>Example runs\<close>

text \<open>
  Concrete event lists on an endpoint with a two-byte prefix. \<open>run_prefix_3\<close> binds a socket and
  completes the first read with the prefix of a three-byte message.
\<close>

definition run_prefix_3 :: "event list" where
  "run_prefix_3 =
     [Initialize (1, no_error) (2, no_error) None, ReadCompletion no_error [3, 0] None]"

text \<open>\<open>run_bind\<close> binds a socket: the endpoint then waits for the first prefix.\<close>

definition run_bind :: "event list" where
  "run_bind = [Initialize (1, no_error) (2, no_error) None]"

text \<open>
  \<open>run_write_fails\<close> binds a socket and sends a datagram whose write throws. The two
  \<open>run_lengths\<close> lists bind a socket and deliver messages of the lengths 3 and 1, and then 2.
\<close>

definition run_write_fails :: "event list" where
  "run_write_fails =
     [Initialize (1, no_error) (2, no_error) None,
      SendDatagram [1] (WriteThrows (error_code 104 system_category))]"

definition run_lengths_3_1 :: "event list" where
  "run_lengths_3_1 =
     [Initialize (1, no_error) (2, no_error) None,
      ReadCompletion no_error [3, 0] None, ReadCompletion no_error [1, 2, 3] None,
      ReadCompletion no_error [1, 0] None, ReadCompletion no_error [4] None]"

definition run_lengths_3_1_2 :: "event list" where
  "run_lengths_3_1_2 =
     run_lengths_3_1 @
     [ReadCompletion no_error [2, 0] None, ReadCompletion no_error [5, 6] None]"

subsection \<open>Events and the recorded cause\<close>

text \<open>
  \<open>keeps_cause\<close> holds of the calls of the owner that leave the disconnect record alone: a
  send whose write succeeds, and \<open>initialize\<close>, which a bound endpoint rejects.
  \<open>records_cause\<close> is the cause that a call of the owner records through \<open>disconnect\<close>: an
  explicit disconnect, or a send whose \<open>try\<close> block throws.
\<close>

fun keeps_cause :: "event \<Rightarrow> bool" where
  "keeps_cause (SendDatagram dg WriteOk) = True"
| "keeps_cause (Initialize remote local thr) = True"
| "keeps_cause (InitializeSsl remote local thr) = True"
| "keeps_cause ev = False"

fun records_cause :: "event \<Rightarrow> error_code option" where
  "records_cause Disconnect = Some no_error"
| "records_cause (DisconnectWith ec) = Some ec"
| "records_cause (SendDatagram dg out) = thrown out"
| "records_cause ev = None"

text \<open>
  \<open>run_disconnect_then_send\<close> binds a socket, disconnects locally with the cause 110, then
  sends on the closed socket, where the switch to non-blocking mode throws with the code 9,
  and at last the outstanding read completes with the error 125.
\<close>

definition run_disconnect_then_send :: "event list" where
  "run_disconnect_then_send =
     [Initialize (1, no_error) (2, no_error) None,
      DisconnectWith (error_code 110 system_category),
      SendDatagram [1] (NonBlockingThrows (error_code 9 system_category)),
      ReadCompletion (error_code 125 system_category) [] None]"

section \<open>Properties\<close>

subsection \<open>The length prefix\<close>

lemma length_le_encode: "length (le_encode W n) = W"
  by (induction W arbitrary: n) auto

lemma unat_of_nat_byte: "unat (of_nat n :: byte) = n mod 256"
  by (simp add: unat_of_nat)

lemma le_decode_encode: "le_decode (le_encode W n) = n mod 256 ^ W"
proof (induction W arbitrary: n)
  case 0
  show ?case by simp
next
  case (Suc k)
  have "le_decode (le_encode (Suc k) n) = n mod 256 + 256 * ((n div 256) mod 256 ^ k)"
    by (simp add: Suc unat_of_nat_byte)
  also have "\<dots> = n mod 256 ^ Suc k"
    by (simp add: mod_mult2_eq)
  finally show ?case .
qed

subsection \<open>The invariant is kept\<close>

lemma inv_new: "client_inv W (NetworkClient_new W)"
  by (simp add: client_inv_def NetworkClient_new_def capacity_def notifications_def)

lemma length_fill: "length got \<le> length b \<Longrightarrow> length (fill got b) = length b"
  by (simp add: fill_def)

lemma inv_disconnect: "client_inv W s \<Longrightarrow> m_socket s \<Longrightarrow> client_inv W (disconnect ec s)"
  by (auto simp: client_inv_def disconnect_def socket_close_def capacity_def notifications_def expected_read_def)

lemma inv_handle_disconnect:
  "client_inv W s \<Longrightarrow> m_socket s \<Longrightarrow> pending_read s = None \<Longrightarrow> client_inv W (handle_disconnect ec s)"
  by (auto simp: client_inv_def handle_disconnect_def is_connected_def receive_disconnect_def socket_close_def capacity_def notifications_def expected_read_def Let_def)

lemma inv_async_receive:
  "client_inv W s \<Longrightarrow> m_socket s \<Longrightarrow> \<not> m_disconnect_handled s \<Longrightarrow> client_inv W (async_receive W thr s)"
  by (auto simp: client_inv_def async_receive_def socket_read_def disconnect_def socket_close_def capacity_def notifications_def expected_read_def split: option.splits)

lemma inv_send_datagram:
  "client_inv W s \<Longrightarrow> m_socket s \<Longrightarrow> client_inv W (send_datagram W dg out s)"
  by (auto simp: client_inv_def send_datagram_def disconnect_def socket_close_def capacity_def notifications_def expected_read_def Let_def split: write_outcome.splits)

lemma inv_receive_size:
  assumes "client_inv W s" "m_socket s" "pending_read s = None" "\<not> m_disconnect_handled s"
  shows "client_inv W (receive_size W ec n thr s)"
proof -
  let ?s3 = "(if le_decode (m_size_buf s) > m_data_size s
              then s\<lparr>m_data_size := le_decode (m_size_buf s),
                     m_data_buf := Some (new_array (le_decode (m_size_buf s)))\<rparr>
              else s\<lparr>m_data_size := le_decode (m_size_buf s)\<rparr>)\<lparr>m_is_data := True\<rparr>"
  have "client_inv W ?s3"
    using assms by (auto simp: client_inv_def capacity_def notifications_def new_array_def)
  moreover have "m_socket ?s3" "\<not> m_disconnect_handled ?s3"
    using assms by auto
  ultimately have "client_inv W (async_receive W thr ?s3)"
    by (rule inv_async_receive)
  moreover have "receive_size W ec n thr s =
      (if failed ec then handle_disconnect ec s
       else if n \<noteq> W then handle_disconnect epipe s else async_receive W thr ?s3)"
    by (simp add: receive_size_def Let_def)
  ultimately show ?thesis
    using assms by (simp add: inv_handle_disconnect)
qed

lemma inv_receive_data:
  assumes "client_inv W s" "m_socket s" "pending_read s = None" "\<not> m_disconnect_handled s"
  shows "client_inv W (receive_data W ec n thr s)"
proof -
  let ?s2 = "receive_datagram (Datagram_create (m_data_buf s) (m_data_size s)) (s\<lparr>m_is_data := False\<rparr>)"
  have "client_inv W ?s2"
    using assms by (auto simp: client_inv_def capacity_def notifications_def receive_datagram_def)
  moreover have "m_socket ?s2" "\<not> m_disconnect_handled ?s2"
    using assms by (auto simp: receive_datagram_def)
  ultimately have "client_inv W (async_receive W thr ?s2)"
    by (rule inv_async_receive)
  moreover have "receive_data W ec n thr s =
      (if failed ec then handle_disconnect ec s
       else if n \<noteq> m_data_size s then handle_disconnect epipe s else async_receive W thr ?s2)"
    by (simp add: receive_data_def Let_def)
  ultimately show ?thesis
    using assms by (simp add: inv_handle_disconnect)
qed

lemma inv_store:
  assumes "client_inv W s" "pending_read s = Some (buf, len, cb)"
  shows "client_inv W ((store buf (take len data) s)\<lparr>pending_read := None\<rparr>)"
proof (cases "m_is_data s")
  case True
  with assms have "buf = DataBuf" "len \<le> capacity s"
    by (auto simp: client_inv_def expected_read_def)
  then show ?thesis
    using assms by (auto simp: client_inv_def store_def capacity_def notifications_def length_fill split: option.splits)
next
  case False
  with assms have "buf = SizeBuf" "len = length (m_size_buf s)"
    by (auto simp: client_inv_def expected_read_def)
  then show ?thesis
    using assms by (auto simp: client_inv_def store_def capacity_def notifications_def length_fill)
qed

lemma inv_read_completion:
  assumes "client_inv W s"
  shows "client_inv W (read_completion W ec data thr s)"
proof (cases "pending_read s")
  case None
  then show ?thesis using assms by (simp add: read_completion_def)
next
  case (Some p)
  obtain buf len cb where p: "p = (buf, len, cb)" by (cases p) auto
  let ?s1 = "(store buf (take len data) s)\<lparr>pending_read := None\<rparr>"
  have inv1: "client_inv W ?s1" using assms Some p by (simp add: inv_store)
  have more: "m_socket ?s1" "pending_read ?s1 = None" "\<not> m_disconnect_handled ?s1"
    using assms Some p by (auto simp: client_inv_def store_def split: buffer.splits)
  show ?thesis
    using Some p inv_receive_size [OF inv1 more] inv_receive_data [OF inv1 more]
    by (simp add: read_completion_def Let_def split: receive_handler_t.splits)
qed

lemma inv_initialize:
  assumes "client_inv W s" "initialize W remote local thr s = Inr s'"
  shows "client_inv W s'"
proof -
  let ?s3 = "s\<lparr>m_socket := True, socket_open := True, keep_alive := True, no_delay := True,
               m_remote := fst remote, m_local := fst local\<rparr>"
  from assms have ns: "\<not> m_socket s" by (auto simp: initialize_def split: if_splits)
  with assms have nh: "\<not> m_disconnect_handled s" and np: "pending_read s = None"
    by (auto simp: client_inv_def)
  have inv3: "client_inv W ?s3"
    using assms(1) ns by (auto simp: client_inv_def capacity_def notifications_def expected_read_def)
  have "s' = (if failed (snd local) then disconnect (snd local) ?s3 else async_receive W thr ?s3)"
    using assms(2) ns by (auto simp: initialize_def determine_endpoints_def Let_def split: if_splits)
  then show ?thesis
    using inv_disconnect [OF inv3] inv_async_receive [OF inv3] nh by simp
qed

lemma inv_initialize_ssl:
  assumes "client_inv W s" "initialize_ssl W remote local thr s = Inr s'"
  shows "client_inv W s'"
proof -
  have "client_inv W (s\<lparr>m_ssl_enabled := True, m_secure_socket := True\<rparr>)"
    using assms(1) by (auto simp: client_inv_def capacity_def notifications_def expected_read_def)
  then show ?thesis
    using assms(2) inv_initialize by (auto simp: initialize_ssl_def split: if_splits)
qed

lemma inv_step:
  assumes "client_inv W s" "step W e s = Inr s'"
  shows "client_inv W s'"
proof (cases e)
  case (Initialize remote local thr)
  with assms show ?thesis using inv_initialize [of W s remote local thr s'] by simp
next
  case (InitializeSsl remote local thr)
  with assms show ?thesis using inv_initialize_ssl [of W s remote local thr s'] by simp
next
  case (SendDatagram dg out)
  with assms show ?thesis using inv_send_datagram [of W s dg out] by (auto split: if_splits)
next
  case Disconnect
  with assms show ?thesis using inv_disconnect [of W s no_error] by (auto split: if_splits)
next
  case (DisconnectWith ec)
  with assms show ?thesis using inv_disconnect [of W s ec] by (auto split: if_splits)
next
  case (ReadCompletion ec data thr)
  with assms show ?thesis using inv_read_completion [of W s ec data thr] by auto
qed

lemma inv_run: "client_inv W s \<Longrightarrow> run W es s = Inr s' \<Longrightarrow> client_inv W s'"
proof (induction es arbitrary: s)
  case Nil
  then show ?case by simp
next
  case (Cons e es)
  show ?case
  proof (cases "step W e s")
    case (Inl f)
    with Cons show ?thesis by (cases f) auto
  next
    case (Inr s1)
    with Cons.prems have "client_inv W s1" "run W es s1 = Inr s'"
      using inv_step [of W s e s1] by auto
    then show ?thesis by (rule Cons.IH)
  qed
qed

lemma inv_reachable: "run W evs (NetworkClient_new W) = Inr s \<Longrightarrow> client_inv W s"
  using inv_run [OF inv_new] .

subsection \<open>Receiving one message\<close>

lemma fill_same_length: "length got = length b \<Longrightarrow> fill got b = got"
  by (simp add: fill_def)

lemma take_fill: "take (length got) (fill got b) = got"
  by (simp add: fill_def)

lemma awaiting_prefix_facts:
  assumes "client_inv W s" "pending_read s = Some (SizeBuf, W, ReceiveSize)"
  shows "\<not> m_is_data s" "m_socket s" "\<not> m_disconnect_handled s" "length (m_size_buf s) = W"
    "m_data_size s \<le> capacity s"
  using assms by (auto simp: client_inv_def expected_read_def split: if_splits)

lemma awaiting_payload_facts:
  assumes "client_inv W s" "pending_read s = Some (DataBuf, n, ReceiveData)"
  shows "m_is_data s" "m_socket s" "\<not> m_disconnect_handled s" "n = m_data_size s"
    "m_data_size s \<le> capacity s"
  using assms by (auto simp: client_inv_def expected_read_def split: if_splits)

lemma prefix_completion:
  assumes "client_inv W s" "pending_read s = Some (SizeBuf, W, ReceiveSize)"
    and "length pre = W" "\<not> failed ec"
  shows "read_completion W ec pre None s =
     s\<lparr>m_size_buf := pre, m_data_size := le_decode pre,
       m_data_buf := (if m_data_size s < le_decode pre then Some (new_array (le_decode pre))
                      else m_data_buf s),
       m_is_data := True,
       pending_read := Some (DataBuf, le_decode pre, ReceiveData),
       calls := calls s @ [ReadIssued DataBuf (le_decode pre) ReceiveData]\<rparr>"
  using assms awaiting_prefix_facts [OF assms(1,2)]
  by (simp add: read_completion_def store_def receive_size_def async_receive_def socket_read_def
      fill_same_length Let_def)

lemma payload_completion:
  assumes "client_inv W s" "pending_read s = Some (DataBuf, n, ReceiveData)"
    and "length m = n" "\<not> failed ec"
  shows "read_completion W ec m None s =
     s\<lparr>m_data_buf := map_option (fill m) (m_data_buf s),
       m_is_data := False,
       pending_read := Some (SizeBuf, W, ReceiveSize),
       calls := calls s @ [ReceiveDatagram m, ReadIssued SizeBuf W ReceiveSize]\<rparr>"
proof -
  note f = awaiting_payload_facts [OF assms(1,2)]
  have "Datagram_create (map_option (fill m) (m_data_buf s)) (length m) = m"
  proof (cases "m_data_buf s")
    case None
    with f assms(3) show ?thesis by (simp add: Datagram_create_def capacity_def)
  next
    case (Some b)
    then show ?thesis by (simp add: Datagram_create_def take_fill)
  qed
  then show ?thesis
    using assms f
    by (simp add: read_completion_def store_def receive_data_def receive_datagram_def
        async_receive_def socket_read_def Let_def)
qed

lemma not_failed_no_error: "\<not> failed no_error"
  by (simp add: failed_def no_error_def)

lemma run_message_events: "run W (message_events W m) s = Inr (after_message W m s)"
  by (simp add: message_events_def after_message_def)

lemma after_message:
  assumes "client_inv W s" "pending_read s = Some (SizeBuf, W, ReceiveSize)"
    and "length m < 256 ^ W"
  shows "client_inv W (after_message W m s)"
    and "pending_read (after_message W m s) = Some (SizeBuf, W, ReceiveSize)"
    and "calls (after_message W m s) = calls s @ message_calls W m"
    and "m_data_size (after_message W m s) = length m"
    and "capacity (after_message W m s) =
           (if m_data_size s < length m then length m else capacity s)"
    and "m_disconnect_handled (after_message W m s) = m_disconnect_handled s"
    and "m_local_disconnect (after_message W m s) = m_local_disconnect s"
    and "socket_open (after_message W m s) = socket_open s"
proof -
  let ?pre = "le_encode W (length m)"
  let ?s1 = "read_completion W no_error ?pre None s"
  have dec: "le_decode ?pre = length m"
    using assms(3) by (simp add: le_decode_encode)
  have s1: "?s1 = s\<lparr>m_size_buf := ?pre, m_data_size := length m,
       m_data_buf := (if m_data_size s < length m then Some (new_array (length m))
                      else m_data_buf s),
       m_is_data := True,
       pending_read := Some (DataBuf, length m, ReceiveData),
       calls := calls s @ [ReadIssued DataBuf (length m) ReceiveData]\<rparr>"
    using prefix_completion [OF assms(1,2) length_le_encode not_failed_no_error, of "length m"]
    by (simp add: dec)
  have inv1: "client_inv W ?s1" using assms(1) by (rule inv_read_completion)
  have p1: "pending_read ?s1 = Some (DataBuf, length m, ReceiveData)"
    by (simp add: s1)
  have s2: "after_message W m s = ?s1\<lparr>m_data_buf := map_option (fill m) (m_data_buf ?s1),
       m_is_data := False,
       pending_read := Some (SizeBuf, W, ReceiveSize),
       calls := calls ?s1 @ [ReceiveDatagram m, ReadIssued SizeBuf W ReceiveSize]\<rparr>"
    unfolding after_message_def
    using payload_completion [OF inv1 p1 refl not_failed_no_error] .
  show "client_inv W (after_message W m s)"
    unfolding after_message_def using inv1 by (rule inv_read_completion)
  show "pending_read (after_message W m s) = Some (SizeBuf, W, ReceiveSize)"
    by (simp add: s2)
  show "calls (after_message W m s) = calls s @ message_calls W m"
    by (simp add: s2 s1 message_calls_def)
  show "m_data_size (after_message W m s) = length m"
    by (simp add: s2 s1)
  have cap: "m_data_size s \<le> capacity s"
    using awaiting_prefix_facts [OF assms(1,2)] by simp
  have buf: "capacity (after_message W m s) =
      (case (if m_data_size s < length m then Some (new_array (length m)) else m_data_buf s) of
         None \<Rightarrow> 0 | Some b \<Rightarrow> length (fill m b))"
    by (simp add: s2 s1 capacity_def split: option.splits)
  show "capacity (after_message W m s) =
           (if m_data_size s < length m then length m else capacity s)"
  proof (cases "m_data_size s < length m")
    case True
    then show ?thesis
      by (simp add: buf new_array_def fill_same_length)
  next
    case False
    with cap have "length m \<le> capacity s" by simp
    with False show ?thesis
      unfolding buf by (cases "m_data_buf s") (simp_all add: capacity_def length_fill)
  qed
  show "m_disconnect_handled (after_message W m s) = m_disconnect_handled s"
    by (simp add: s2 s1)
  show "m_local_disconnect (after_message W m s) = m_local_disconnect s"
    by (simp add: s2 s1)
  show "socket_open (after_message W m s) = socket_open s"
    by (simp add: s2 s1)
qed

subsection \<open>An endpoint without an outstanding read\<close>

lemma quiet_step:
  assumes "m_socket s" "pending_read s = None"
  shows "(step W e s = Inl LogicError) \<or>
         (\<exists>s' cs. step W e s = Inr s' \<and> m_socket s' \<and> pending_read s' = None \<and>
            calls s' = calls s @ cs \<and> list_all socket_only cs)"
proof (cases e)
  case (Initialize remote local thr)
  with assms show ?thesis by (simp add: initialize_def)
next
  case (InitializeSsl remote local thr)
  with assms show ?thesis by (simp add: initialize_ssl_def)
next
  case (SendDatagram dg out)
  with assms show ?thesis
    by (cases out) (simp_all add: send_datagram_def disconnect_def socket_close_def Let_def)
next
  case Disconnect
  with assms show ?thesis by (simp add: disconnect_def socket_close_def)
next
  case (DisconnectWith ec)
  with assms show ?thesis by (simp add: disconnect_def socket_close_def)
next
  case (ReadCompletion ec data thr)
  with assms show ?thesis by (simp add: read_completion_def)
qed

lemma quiet_run:
  assumes "m_socket s" "pending_read s = None"
  shows "\<exists>s' cs. run W es s = Inr s' \<and> m_socket s' \<and> pending_read s' = None \<and>
            calls s' = calls s @ cs \<and> list_all socket_only cs"
  using assms
proof (induction es arbitrary: s)
  case Nil
  then show ?case by simp
next
  case (Cons e es)
  from quiet_step [OF Cons.prems, of W e] show ?case
  proof
    assume "step W e s = Inl LogicError"
    with Cons.IH [OF Cons.prems] show ?thesis by simp
  next
    assume "\<exists>s' cs. step W e s = Inr s' \<and> m_socket s' \<and> pending_read s' = None \<and>
            calls s' = calls s @ cs \<and> list_all socket_only cs"
    then obtain s1 cs1 where s1: "step W e s = Inr s1" "m_socket s1" "pending_read s1 = None"
      "calls s1 = calls s @ cs1" "list_all socket_only cs1" by blast
    from Cons.IH [OF s1(2,3)] obtain s2 cs2 where s2: "run W es s1 = Inr s2" "m_socket s2"
      "pending_read s2 = None" "calls s2 = calls s1 @ cs2" "list_all socket_only cs2" by blast
    have "run W (e # es) s = Inr s2" using s1(1) s2(1) by simp
    moreover have "calls s2 = calls s @ (cs1 @ cs2)" using s1(4) s2(4) by simp
    moreover have "list_all socket_only (cs1 @ cs2)" using s1(5) s2(5) by simp
    ultimately show ?thesis using s2(2,3) by blast
  qed
qed

lemma socket_only_not_notification: "list_all socket_only cs \<Longrightarrow> filter is_notification cs = []"
proof (induction cs)
  case Nil
  show ?case by simp
next
  case (Cons c cs)
  then show ?case by (cases c) auto
qed

subsection \<open>Receiving from a stream\<close>

lemma receive_stream_complete:
  assumes "pending_read s = Some (buf, len, callback)" "0 < W" "len \<le> length stream"
  shows "receive_stream W stream s =
         receive_stream W (drop len stream) (read_completion W no_error (take len stream) None s)"
  using assms by (subst receive_stream.simps) simp

lemma receive_stream_wait:
  assumes "pending_read s = Some (buf, len, callback)" "length stream < len"
  shows "receive_stream W stream s = s"
  using assms by (subst receive_stream.simps) simp

lemma receive_stream_frame:
  assumes "client_inv W s" "pending_read s = Some (SizeBuf, W, ReceiveSize)"
    and "length m < 256 ^ W" "0 < W"
  shows "receive_stream W (frame W m @ rest) s = receive_stream W rest (after_message W m s)"
proof -
  let ?pre = "le_encode W (length m)"
  let ?s1 = "read_completion W no_error ?pre None s"
  have dec: "le_decode ?pre = length m"
    using assms(3) by (simp add: le_decode_encode)
  have p1: "pending_read ?s1 = Some (DataBuf, length m, ReceiveData)"
    using prefix_completion [OF assms(1,2) length_le_encode not_failed_no_error, of "length m"]
    by (simp add: dec)
  have "receive_stream W (frame W m @ rest) s = receive_stream W (m @ rest) ?s1"
    using receive_stream_complete [OF assms(2) assms(4), of "frame W m @ rest"]
    by (simp add: frame_def length_le_encode)
  also have "\<dots> = receive_stream W rest (read_completion W no_error m None ?s1)"
    using receive_stream_complete [OF p1 assms(4), of "m @ rest"] by simp
  finally show ?thesis by (simp add: after_message_def)
qed

lemma receive_stream_end:
  assumes "pending_read s = Some (SizeBuf, W, ReceiveSize)" "0 < W"
  shows "receive_stream W [] s = s"
  using receive_stream_wait [OF assms(1), of "[]"] assms(2) by simp

lemma notifications_awaiting:
  assumes "client_inv W s" "pending_read s = Some p"
  shows "notifications s = 0"
  using assms by (auto simp: client_inv_def)

lemma receive_stream_frames:
  assumes "client_inv W s" "pending_read s = Some (SizeBuf, W, ReceiveSize)" "0 < W"
    and "length M1 < 256 ^ W" "length M2 < 256 ^ W" "length M3 < 256 ^ W"
  shows "receive_stream W (frame W M1 @ frame W M2 @ frame W M3) s =
         after_message W M3 (after_message W M2 (after_message W M1 s))"
proof -
  let ?s1 = "after_message W M1 s"
  let ?s2 = "after_message W M2 ?s1"
  let ?s3 = "after_message W M3 ?s2"
  note a1 = after_message(1,2) [OF assms(1,2,4)]
  note a2 = after_message(1,2) [OF a1 assms(5)]
  note a3 = after_message(1,2) [OF a2 assms(6)]
  have "receive_stream W (frame W M1 @ frame W M2 @ frame W M3) s =
        receive_stream W (frame W M2 @ frame W M3) ?s1"
    using assms(1,2,4,3) by (rule receive_stream_frame)
  also have "\<dots> = receive_stream W (frame W M3 @ []) ?s2"
    using receive_stream_frame [OF a1 assms(5,3), of "frame W M3"] by simp
  also have "\<dots> = receive_stream W [] ?s3"
    using a2 assms(6,3) by (rule receive_stream_frame)
  also have "\<dots> = ?s3"
    using a3(2) assms(3) by (rule receive_stream_end)
  finally show ?thesis .
qed

subsection \<open>Completions that fail\<close>

lemma pending_facts:
  assumes "client_inv W s" "pending_read s = Some (buf, len, callback)"
  shows "m_socket s" "\<not> m_disconnect_handled s"
    "callback = ReceiveSize \<Longrightarrow> len = W"
    "callback = ReceiveData \<Longrightarrow> len = m_data_size s"
    "socket_open s = (\<not> m_local_disconnect s)"
  using assms by (auto simp: client_inv_def expected_read_def split: if_splits)

lemma store_fields [simp]:
  "m_disconnect_handled (store buf got s) = m_disconnect_handled s"
  "m_local_disconnect (store buf got s) = m_local_disconnect s"
  "m_disconnect_error (store buf got s) = m_disconnect_error s"
  "socket_open (store buf got s) = socket_open s"
  "m_socket (store buf got s) = m_socket s"
  "calls (store buf got s) = calls s"
  "m_data_size (store buf got s) = m_data_size s"
  by (cases buf; simp add: store_def)+

text \<open>A completion that reports an error or too few bytes ends in \<open>handle_disconnect\<close>.\<close>

lemma failing_completion:
  assumes "client_inv W s" "pending_read s = Some (buf, len, callback)"
    and "failed ec \<or> length data < len"
  shows "read_completion W ec data thr s =
           handle_disconnect (if failed ec then ec else epipe)
             ((store buf (take len data) s)\<lparr>pending_read := None\<rparr>)"
proof (cases callback)
  case ReceiveSize
  with assms pending_facts(3) [OF assms(1,2)] show ?thesis
    by (auto simp: read_completion_def receive_size_def Let_def)
next
  case ReceiveData
  with assms pending_facts(4) [OF assms(1,2)] show ?thesis
    by (auto simp: read_completion_def receive_data_def Let_def)
qed

lemma failing_completion_effect:
  assumes "client_inv W s" "pending_read s = Some (buf, len, callback)"
    and "failed ec \<or> length data < len"
  shows "calls (read_completion W ec data thr s) =
           calls s @ (if m_local_disconnect s then [ReceiveDisconnect (m_disconnect_error s)]
                      else [SocketClose, ReceiveDisconnect (if failed ec then ec else epipe)])"
    and "pending_read (read_completion W ec data thr s) = None"
    and "m_socket (read_completion W ec data thr s)"
    and "\<not> is_connected (read_completion W ec data thr s)"
    and "m_disconnect_handled (read_completion W ec data thr s)"
    and "m_local_disconnect (read_completion W ec data thr s) = m_local_disconnect s"
  using pending_facts(1,2,5) [OF assms(1,2)]
  by (simp_all add: failing_completion [OF assms] handle_disconnect_def receive_disconnect_def
      socket_close_def is_connected_def Let_def)

subsection \<open>Binding and notification\<close>

lemma failed_bind:
  assumes "failed e"
  shows "initialize W remote (a, e) thr (NetworkClient_new W) =
     Inr ((NetworkClient_new W)\<lparr>m_socket := True, keep_alive := True, no_delay := True,
            m_remote := fst remote, m_local := a, m_local_disconnect := True,
            m_disconnect_error := e, socket_open := False, calls := [SocketClose]\<rparr>)"
  using assms
  by (simp add: initialize_def determine_endpoints_def disconnect_def socket_close_def
      NetworkClient_new_def Let_def)

lemma failed_22: "failed (error_code 22 system_category)"
  by (simp add: failed_def)

lemma remote_failure_masked:
  "initialize W (a, error_code 107 system_category) (b, no_error) None (NetworkClient_new W) =
     Inr ((NetworkClient_new W)\<lparr>m_socket := True, socket_open := True, keep_alive := True,
            no_delay := True, m_remote := a, m_local := b,
            pending_read := Some (SizeBuf, W, ReceiveSize),
            calls := [ReadIssued SizeBuf W ReceiveSize]\<rparr>)"
  by (simp add: initialize_def determine_endpoints_def async_receive_def socket_read_def
      NetworkClient_new_def failed_def no_error_def Let_def)

lemma notifications_at_most_once:
  assumes "run W evs (NetworkClient_new W) = Inr s"
  shows "notifications s \<le> 1"
  using inv_reachable [OF assms] by (simp add: client_inv_def)

lemma notified_once_after_failed_read:
  assumes "run W evs (NetworkClient_new W) = Inr s" "pending_read s = Some (buf, len, callback)"
    and "failed ec \<or> length data < len"
  shows "notifications (read_completion W ec data thr s) = 1"
proof -
  have inv: "client_inv W s" using assms(1) by (rule inv_reachable)
  then have "client_inv W (read_completion W ec data thr s)" by (rule inv_read_completion)
  then show ?thesis
    using failing_completion_effect(5) [OF inv assms(2,3), of thr] by (simp add: client_inv_def)
qed

subsection \<open>The payload buffer\<close>

lemma prefix_completion_buffer:
  assumes "client_inv W s" "pending_read s = Some (SizeBuf, W, ReceiveSize)"
    and "length pre = W" "\<not> failed ec"
  shows "m_data_size (read_completion W ec pre thr s) = le_decode pre"
    and "m_data_buf (read_completion W ec pre thr s) =
           (if m_data_size s < le_decode pre then Some (new_array (le_decode pre))
            else m_data_buf s)"
  using assms awaiting_prefix_facts [OF assms(1,2)]
  by (cases thr;
      simp add: read_completion_def store_def receive_size_def async_receive_def socket_read_def
        disconnect_def socket_close_def fill_same_length Let_def)+

lemma receive_stream_two_frames:
  assumes "client_inv W s" "pending_read s = Some (SizeBuf, W, ReceiveSize)" "0 < W"
    and "length M1 < 256 ^ W" "length M2 < 256 ^ W"
  shows "receive_stream W (frame W M1 @ frame W M2) s =
         after_message W M2 (after_message W M1 s)"
proof -
  let ?s1 = "after_message W M1 s"
  let ?s2 = "after_message W M2 ?s1"
  note a1 = after_message(1,2) [OF assms(1,2,4)]
  note a2 = after_message(1,2) [OF a1 assms(5)]
  have "receive_stream W (frame W M1 @ frame W M2) s = receive_stream W (frame W M2 @ []) ?s1"
    using receive_stream_frame [OF assms(1,2,4,3), of "frame W M2"] by simp
  also have "\<dots> = receive_stream W [] ?s2"
    using a1 assms(5,3) by (rule receive_stream_frame)
  also have "\<dots> = ?s2"
    using a2(2) assms(3) by (rule receive_stream_end)
  finally show ?thesis .
qed

subsection \<open>The recorded cause\<close>

lemma run_append:
  "run W xs s = Inr s' \<Longrightarrow> run W (xs @ ys) s = run W ys s'"
proof (induction xs arbitrary: s)
  case Nil
  then show ?case by simp
next
  case (Cons e xs)
  show ?case
  proof (cases "step W e s")
    case (Inl f)
    with Cons show ?thesis by (cases f) auto
  next
    case (Inr s1)
    with Cons show ?thesis by auto
  qed
qed

lemma keeps_cause_step:
  assumes "m_socket d" "keeps_cause ev"
  shows "\<exists>d' cs. run W [ev] d = Inr d' \<and> m_socket d' \<and> pending_read d' = pending_read d \<and>
           m_local_disconnect d' = m_local_disconnect d \<and>
           m_disconnect_error d' = m_disconnect_error d \<and>
           calls d' = calls d @ cs \<and> list_all socket_only cs"
proof (cases ev)
  case (Initialize remote local thr)
  with assms show ?thesis by (simp add: initialize_def)
next
  case (InitializeSsl remote local thr)
  with assms show ?thesis by (simp add: initialize_ssl_def)
next
  case (SendDatagram dg out)
  with assms show ?thesis by (cases out) (simp_all add: send_datagram_def Let_def)
qed (use assms in simp_all)

lemma keeps_cause_run:
  assumes "m_socket d" "list_all keeps_cause mid"
  shows "\<exists>d' cs. run W mid d = Inr d' \<and> m_socket d' \<and> pending_read d' = pending_read d \<and>
           m_local_disconnect d' = m_local_disconnect d \<and>
           m_disconnect_error d' = m_disconnect_error d \<and>
           calls d' = calls d @ cs \<and> list_all socket_only cs"
  using assms
proof (induction mid arbitrary: d)
  case Nil
  then show ?case by simp
next
  case (Cons ev mid)
  from Cons.prems have k: "keeps_cause ev" "list_all keeps_cause mid" by simp_all
  from keeps_cause_step [OF Cons.prems(1) k(1), of W] obtain d1 cs1 where
    d1: "run W [ev] d = Inr d1" "m_socket d1" "pending_read d1 = pending_read d"
      "m_local_disconnect d1 = m_local_disconnect d" "m_disconnect_error d1 = m_disconnect_error d"
      "calls d1 = calls d @ cs1" "list_all socket_only cs1" by blast
  from Cons.IH [OF d1(2) k(2)] obtain d2 cs2 where
    d2: "run W mid d1 = Inr d2" "m_socket d2" "pending_read d2 = pending_read d1"
      "m_local_disconnect d2 = m_local_disconnect d1" "m_disconnect_error d2 = m_disconnect_error d1"
      "calls d2 = calls d1 @ cs2" "list_all socket_only cs2" by blast
  have "run W (ev # mid) d = Inr d2"
    using run_append [OF d1(1), of mid] d2(1) by simp
  moreover have "calls d2 = calls d @ (cs1 @ cs2)" using d1(6) d2(6) by simp
  moreover have "list_all socket_only (cs1 @ cs2)" using d1(7) d2(7) by simp
  ultimately show ?case using d1 d2 by (intro exI [of _ d2] exI [of _ "cs1 @ cs2"]) simp
qed

lemma records_cause_step:
  assumes "m_socket d" "records_cause ev = Some e"
  shows "\<exists>d'. run W [ev] d = Inr d' \<and> m_socket d' \<and> pending_read d' = pending_read d \<and>
           m_local_disconnect d' \<and> m_disconnect_error d' = e \<and>
           calls d' = calls d @ [SocketClose]"
proof (cases ev)
  case (SendDatagram dg out)
  with assms show ?thesis
    by (cases out) (simp_all add: thrown_def send_datagram_def disconnect_def socket_close_def)
next
  case Disconnect
  with assms show ?thesis by (auto simp: disconnect_def socket_close_def)
next
  case (DisconnectWith ec)
  with assms show ?thesis by (auto simp: disconnect_def socket_close_def)
qed (use assms in simp_all)

text \<open>A failing completion on an endpoint with a recorded local disconnect.\<close>

lemma recorded_cause_delivered:
  assumes "client_inv W d" "pending_read d = Some p" "m_local_disconnect d"
    and "failed c2"
  shows "calls (read_completion W c2 data thr d) =
           calls d @ [ReceiveDisconnect (m_disconnect_error d)]"
proof -
  obtain buf len callback where p: "pending_read d = Some (buf, len, callback)"
    using assms(2) by (cases p) auto
  have f: "failed c2 \<or> length data < len" using assms(4) by simp
  show ?thesis
    using failing_completion_effect(1) [OF assms(1) p f, of thr] assms(3) by simp
qed

subsection \<open>Evaluating concrete runs\<close>

lemmas eval_defs = NetworkClient_new_def initialize_def initialize_ssl_def determine_endpoints_def
  async_receive_def socket_read_def read_completion_def receive_size_def receive_data_def
  receive_datagram_def Datagram_create_def store_def fill_def new_array_def handle_disconnect_def
  receive_disconnect_def is_connected_def disconnect_def socket_close_def send_datagram_def
  failed_def no_error_def epipe_def broken_pipe_def capacity_def notifications_def Let_def

section \<open>The claims\<close>

subsection \<open>C1: one disconnect notification per endpoint\<close>

text \<open>
  C1 asks for exactly one call of \<open>receive_disconnect\<close> in the life of every endpoint. The
  guard \<open>m_disconnect_handled\<close> gives at most one call (\<open>notifications_at_most_once\<close>), and a
  read that completes with a failure gives exactly one (\<open>notified_once_after_failed_read\<close>).
  But \<open>handle_disconnect\<close> is reached from the completion of a read only. C1, evaluated on
  an endpoint whose bind fails because \<open>local_endpoint\<close> reports an error: \<open>disconnect\<close>
  records the cause and closes the socket while no read is outstanding, and whatever
  happens afterwards (local disconnect requests, failed writes, completions), the handler
  is never notified: the number of notifications is 0, not 1.
\<close>

theorem bind_failure_then_no_notification:
  "\<exists>s. run W (Initialize remote (a, error_code 22 system_category) thr # later)
          (NetworkClient_new W) = Inr s \<and>
       notifications s = 0"
proof -
  let ?s1 = "(NetworkClient_new W)\<lparr>m_socket := True, keep_alive := True, no_delay := True,
            m_remote := fst remote, m_local := a, m_local_disconnect := True,
            m_disconnect_error := error_code 22 system_category, socket_open := False,
            calls := [SocketClose]\<rparr>"
  have i: "initialize W remote (a, error_code 22 system_category) thr (NetworkClient_new W) = Inr ?s1"
    using failed_22 by (rule failed_bind)
  have "m_socket ?s1" "pending_read ?s1 = None"
    by (simp_all add: NetworkClient_new_def)
  from quiet_run [OF this, of W later] obtain s' cs where
    r: "run W later ?s1 = Inr s'" "calls s' = calls ?s1 @ cs" "list_all socket_only cs"
    by blast
  have "notifications s' = 0"
    using r(2,3) by (simp add: notifications_def socket_only_not_notification)
  moreover have "run W (Initialize remote (a, error_code 22 system_category) thr # later)
          (NetworkClient_new W) = Inr s'"
    using i r(1) by simp
  ultimately show ?thesis by blast
qed

subsection \<open>C2: growth of the payload buffer\<close>

text \<open>
  C2 as stated, that the capacity of the payload buffer never shrinks and equals the largest
  length seen, fails: after messages of the lengths 3 and 1 the capacity is 3, and after a
  further message of length 2 it is 2, because \<open>receive_size\<close> compares the new length with
  the previous length \<open>m_data_size\<close>, not with the capacity.
\<close>

theorem capacity_shrinks:
  "capacity (projr (run 2 run_lengths_3_1 (NetworkClient_new 2))) = 3 \<and>
   capacity (projr (run 2 run_lengths_3_1_2 (NetworkClient_new 2))) = 2 \<and>
   calls (projr (run 2 run_lengths_3_1_2 (NetworkClient_new 2))) =
     [ReadIssued SizeBuf 2 ReceiveSize,
      ReadIssued DataBuf 3 ReceiveData, ReceiveDatagram [1, 2, 3], ReadIssued SizeBuf 2 ReceiveSize,
      ReadIssued DataBuf 1 ReceiveData, ReceiveDatagram [4], ReadIssued SizeBuf 2 ReceiveSize,
      ReadIssued DataBuf 2 ReceiveData, ReceiveDatagram [5, 6], ReadIssued SizeBuf 2 ReceiveSize]"
  by (simp add: run_lengths_3_1_def run_lengths_3_1_2_def eval_defs)

text \<open>
  C2, amended. When a prefix read completes, the payload buffer is reallocated exactly when
  the decoded length exceeds the previous length \<open>m_data_size\<close>, and then to exactly the
  decoded length; otherwise the buffer is left as it is. In both cases the capacity is at
  least the decoded length. After a message of length \<open>L1\<close> followed by a message of a
  smaller length \<open>L2\<close> the capacity is at least \<open>L1\<close>, and both messages are delivered.
\<close>

theorem payload_buffer_growth:
  assumes "run W evs (NetworkClient_new W) = Inr s"
    and "pending_read s = Some (SizeBuf, W, ReceiveSize)"
    and "length pre = W" "\<not> failed ec"
    and "0 < W" "length M1 < 256 ^ W" "length M2 < length M1"
  shows "m_data_buf (read_completion W ec pre thr s) =
           (if m_data_size s < le_decode pre then Some (new_array (le_decode pre))
            else m_data_buf s) \<and>
         m_data_size (read_completion W ec pre thr s) = le_decode pre \<and>
         le_decode pre \<le> capacity (read_completion W ec pre thr s) \<and>
         length M1 \<le> capacity (receive_stream W
            (le_encode W (length M1) @ M1 @ le_encode W (length M2) @ M2) s) \<and>
         calls (receive_stream W
            (le_encode W (length M1) @ M1 @ le_encode W (length M2) @ M2) s) =
           calls s @
           [ReadIssued DataBuf (length M1) ReceiveData, ReceiveDatagram M1,
            ReadIssued SizeBuf W ReceiveSize,
            ReadIssued DataBuf (length M2) ReceiveData, ReceiveDatagram M2,
            ReadIssued SizeBuf W ReceiveSize]"
proof -
  let ?s' = "read_completion W ec pre thr s"
  have inv: "client_inv W s" using assms(1) by (rule inv_reachable)
  note b = prefix_completion_buffer [OF inv assms(2,3,4), of thr]
  have "client_inv W ?s'" using inv by (rule inv_read_completion)
  then have "m_data_size ?s' \<le> capacity ?s'" by (simp add: client_inv_def)
  then have c: "le_decode pre \<le> capacity ?s'" by (simp add: b(1))
  let ?s1 = "after_message W M1 s"
  let ?s2 = "after_message W M2 ?s1"
  have m2: "length M2 < 256 ^ W" using assms(6,7) by simp
  note a1 = after_message [OF inv assms(2,6)]
  note a2 = after_message [OF a1(1,2) m2]
  have cap1: "length M1 \<le> capacity ?s1"
    using a1(1) a1(4) by (simp add: client_inv_def)
  have "capacity ?s2 = capacity ?s1"
    using a2(5) a1(4) assms(7) by simp
  with cap1 have cap2: "length M1 \<le> capacity ?s2" by simp
  have rs: "receive_stream W (frame W M1 @ frame W M2) s = ?s2"
    using inv assms(2,5,6) m2 by (rule receive_stream_two_frames)
  have "calls ?s2 = calls s @ message_calls W M1 @ message_calls W M2"
    by (simp add: a1(3) a2(3))
  with rs cap2 have "length M1 \<le> capacity (receive_stream W (frame W M1 @ frame W M2) s) \<and>
      calls (receive_stream W (frame W M1 @ frame W M2) s) =
        calls s @ message_calls W M1 @ message_calls W M2"
    by simp
  with b c show ?thesis
    by (simp add: frame_def message_calls_def)
qed

theorem payload_buffer_growth_witness:
  "\<not> isl (run 2 run_bind (NetworkClient_new 2)) \<and>
   pending_read (projr (run 2 run_bind (NetworkClient_new 2))) = Some (SizeBuf, 2, ReceiveSize) \<and>
   length [3, 0 :: byte] = 2 \<and> \<not> failed no_error \<and> (0::nat) < 2 \<and>
   length [1, 2, 3 :: byte] < 256 ^ 2 \<and> length [4 :: byte] < length [1, 2, 3 :: byte] \<and>
   m_data_buf (read_completion 2 no_error [3, 0] None (projr (run 2 run_bind (NetworkClient_new 2))))
     = Some (new_array 3) \<and>
   3 \<le> capacity (receive_stream 2 [3, 0, 1, 2, 3, 1, 0, 4]
                   (projr (run 2 run_bind (NetworkClient_new 2))))"
proof -
  let ?r = "projr (run 2 run_bind (NetworkClient_new 2))"
  have h1: "run 2 run_bind (NetworkClient_new 2) = Inr ?r"
    by (simp add: run_bind_def eval_defs)
  have h2: "pending_read ?r = Some (SizeBuf, 2, ReceiveSize)"
    by (simp add: run_bind_def eval_defs)
  have h3: "length [3, 0 :: byte] = 2" by simp
  have h4: "\<not> failed no_error" by (simp add: failed_def no_error_def)
  have h5: "(0::nat) < 2" by simp
  have h6: "length [1, 2, 3 :: byte] < 256 ^ 2" by simp
  have h7: "length [4 :: byte] < length [1, 2, 3 :: byte]" by simp
  have d: "m_data_size ?r = 0" by (simp add: run_bind_def eval_defs)
  have l: "length [1, 2, 3 :: byte] = 3" "length [4 :: byte] = 1" "le_decode [3, 0] = 3"
    by simp_all
  have e: "le_encode 2 3 = [3, 0]" "le_encode 2 1 = [1, 0]"
    by (simp_all add: numeral_2_eq_2)
  note t = payload_buffer_growth [OF h1 h2 h3 h4 h5 h6 h7, of None, unfolded l e d]
  have "\<not> isl (run 2 run_bind (NetworkClient_new 2))"
    by (subst h1) simp
  with h2 h3 h4 h5 h6 h7 t show ?thesis by simp
qed

subsection \<open>C3: the local cause takes precedence\<close>

text \<open>
  C3 as stated, that the cause \<open>c1\<close> of a local disconnect always takes precedence over the
  error of a read that completes afterwards, fails: a send that is attempted after the
  disconnect and before the completion throws, the \<open>catch\<close> block of \<open>send_datagram\<close> calls
  \<open>disconnect\<close> again, and that call replaces the recorded cause. The handler then receives
  the error of the send (9), neither \<open>c1\<close> (110) nor the error of the read (125).
\<close>

theorem later_failed_send_replaces_cause:
  "calls (projr (run 2 run_disconnect_then_send (NetworkClient_new 2))) =
     [ReadIssued SizeBuf 2 ReceiveSize, SocketClose, SocketClose,
      ReceiveDisconnect (error_code 9 system_category)]"
  by (simp add: run_disconnect_then_send_def eval_defs)

text \<open>
  C3, amended. A local disconnect with the cause \<open>c1\<close> is issued while a read is outstanding,
  and the read later completes with the error \<open>c2\<close>. When the calls in between leave the
  disconnect record alone (sends that succeed, rejected calls of \<open>initialize\<close>; in particular
  when there is no call in between), the one notification that the handler receives carries
  \<open>c1\<close>, not \<open>c2\<close>. When a further call records a cause \<open>e\<close> before the read completes (an
  explicit disconnect, or a send that throws), the notification carries \<open>e\<close>: the cause
  recorded last is delivered, and never the error of the read.
\<close>

theorem last_local_cause_delivered:
  assumes "run W evs (NetworkClient_new W) = Inr s"
    and "pending_read s = Some p"
    and "failed c2"
    and "list_all keeps_cause mid"
    and "records_cause ev = Some e"
  shows "(\<exists>s'. run W (DisconnectWith c1 # mid @ [ReadCompletion c2 data thr]) s = Inr s' \<and>
            filter is_notification (calls s') = [ReceiveDisconnect c1]) \<and>
         (\<exists>s'. run W (DisconnectWith c1 # mid @ [ev, ReadCompletion c2 data thr]) s = Inr s' \<and>
            filter is_notification (calls s') = [ReceiveDisconnect e])"
proof -
  obtain buf len callback where p: "pending_read s = Some (buf, len, callback)"
    using assms(2) by (cases p) auto
  have inv: "client_inv W s" using assms(1) by (rule inv_reachable)
  have ms: "m_socket s" using pending_facts(1) [OF inv p] .
  have n0: "filter is_notification (calls s) = []"
    using notifications_awaiting [OF inv assms(2)] by (simp add: notifications_def)
  let ?d = "disconnect c1 s"
  have d: "m_socket ?d" "pending_read ?d = Some p" "m_local_disconnect ?d"
    "m_disconnect_error ?d = c1" "calls ?d = calls s @ [SocketClose]"
    using ms assms(2) by (simp_all add: disconnect_def socket_close_def)
  have r0: "run W [DisconnectWith c1] s = Inr ?d" using ms by simp
  from keeps_cause_run [OF d(1) assms(4), of W] obtain d1 cs where
    d1: "run W mid ?d = Inr d1" "m_socket d1" "pending_read d1 = pending_read ?d"
      "m_local_disconnect d1 = m_local_disconnect ?d"
      "m_disconnect_error d1 = m_disconnect_error ?d"
      "calls d1 = calls ?d @ cs" "list_all socket_only cs" by blast
  have r1: "run W (DisconnectWith c1 # mid) s = Inr d1"
    using run_append [OF r0, of mid] d1(1) by simp
  have inv1: "client_inv W d1" using inv r1 by (rule inv_run)
  have p1: "pending_read d1 = Some p" "m_local_disconnect d1" "m_disconnect_error d1 = c1"
    using d1(3,4,5) d(2,3,4) by simp_all
  have nd1: "filter is_notification (calls d1) = []"
    using d1(6) d(5) n0 socket_only_not_notification [OF d1(7)] by simp
  let ?a = "read_completion W c2 data thr d1"
  have "run W ((DisconnectWith c1 # mid) @ [ReadCompletion c2 data thr]) s = Inr ?a"
    using run_append [OF r1, of "[ReadCompletion c2 data thr]"] by simp
  moreover have "filter is_notification (calls ?a) = [ReceiveDisconnect c1]"
    using recorded_cause_delivered [OF inv1 p1(1,2) assms(3), of data thr] p1(3) nd1 by simp
  ultimately have A: "\<exists>s'. run W (DisconnectWith c1 # mid @ [ReadCompletion c2 data thr]) s = Inr s' \<and>
            filter is_notification (calls s') = [ReceiveDisconnect c1]"
    by simp
  from records_cause_step [OF d1(2) assms(5), of W] obtain d2 where
    d2: "run W [ev] d1 = Inr d2" "m_socket d2" "pending_read d2 = pending_read d1"
      "m_local_disconnect d2" "m_disconnect_error d2 = e" "calls d2 = calls d1 @ [SocketClose]"
    by blast
  have r2: "run W ((DisconnectWith c1 # mid) @ [ev]) s = Inr d2"
    using run_append [OF r1, of "[ev]"] d2(1) by simp
  have inv2: "client_inv W d2" using inv r2 by (rule inv_run)
  have p2: "pending_read d2 = Some p" using d2(3) p1(1) by simp
  have nd2: "filter is_notification (calls d2) = []" using d2(6) nd1 by simp
  let ?b = "read_completion W c2 data thr d2"
  have "run W (((DisconnectWith c1 # mid) @ [ev]) @ [ReadCompletion c2 data thr]) s = Inr ?b"
    using run_append [OF r2, of "[ReadCompletion c2 data thr]"] by simp
  moreover have "filter is_notification (calls ?b) = [ReceiveDisconnect e]"
    using recorded_cause_delivered [OF inv2 p2 d2(4) assms(3), of data thr] d2(5) nd2 by simp
  ultimately have B: "\<exists>s'. run W (DisconnectWith c1 # mid @ [ev, ReadCompletion c2 data thr]) s = Inr s' \<and>
            filter is_notification (calls s') = [ReceiveDisconnect e]"
    by simp
  from A B show ?thesis by blast
qed

theorem last_local_cause_delivered_witness:
  "\<not> isl (run 2 run_bind (NetworkClient_new 2)) \<and>
   pending_read (projr (run 2 run_bind (NetworkClient_new 2))) = Some (SizeBuf, 2, ReceiveSize) \<and>
   failed (error_code 125 system_category) \<and>
   list_all keeps_cause [SendDatagram [5] WriteOk] \<and>
   records_cause (SendDatagram [1] (NonBlockingThrows (error_code 9 system_category))) =
     Some (error_code 9 system_category) \<and>
   filter is_notification (calls (projr (run 2
       [DisconnectWith (error_code 110 system_category), SendDatagram [5] WriteOk,
        ReadCompletion (error_code 125 system_category) [] None]
       (projr (run 2 run_bind (NetworkClient_new 2)))))) =
     [ReceiveDisconnect (error_code 110 system_category)] \<and>
   filter is_notification (calls (projr (run 2
       [DisconnectWith (error_code 110 system_category), SendDatagram [5] WriteOk,
        SendDatagram [1] (NonBlockingThrows (error_code 9 system_category)),
        ReadCompletion (error_code 125 system_category) [] None]
       (projr (run 2 run_bind (NetworkClient_new 2)))))) =
     [ReceiveDisconnect (error_code 9 system_category)]"
proof -
  let ?r = "projr (run 2 run_bind (NetworkClient_new 2))"
  have h1: "run 2 run_bind (NetworkClient_new 2) = Inr ?r"
    by (simp add: run_bind_def eval_defs)
  have h2: "pending_read ?r = Some (SizeBuf, 2, ReceiveSize)"
    by (simp add: run_bind_def eval_defs)
  have h3: "failed (error_code 125 system_category)" by (simp add: failed_def)
  have h4: "list_all keeps_cause [SendDatagram [5] WriteOk]" by simp
  have h5: "records_cause (SendDatagram [1] (NonBlockingThrows (error_code 9 system_category))) =
              Some (error_code 9 system_category)"
    by (simp add: thrown_def)
  note t = last_local_cause_delivered [OF h1 h2 h3 h4 h5,
      of "error_code 110 system_category" "[]" None]
  from t obtain a where a: "run 2
       [DisconnectWith (error_code 110 system_category), SendDatagram [5] WriteOk,
        ReadCompletion (error_code 125 system_category) [] None] ?r = Inr a"
    "filter is_notification (calls a) = [ReceiveDisconnect (error_code 110 system_category)]"
    by auto
  from t obtain b where b: "run 2
       [DisconnectWith (error_code 110 system_category), SendDatagram [5] WriteOk,
        SendDatagram [1] (NonBlockingThrows (error_code 9 system_category)),
        ReadCompletion (error_code 125 system_category) [] None] ?r = Inr b"
    "filter is_notification (calls b) = [ReceiveDisconnect (error_code 9 system_category)]"
    by auto
  have "\<not> isl (run 2 run_bind (NetworkClient_new 2))"
    by (subst h1) simp
  moreover have "filter is_notification (calls (projr (run 2
       [DisconnectWith (error_code 110 system_category), SendDatagram [5] WriteOk,
        ReadCompletion (error_code 125 system_category) [] None] ?r))) =
     [ReceiveDisconnect (error_code 110 system_category)]"
    by (subst a(1)) (simp add: a(2))
  moreover have "filter is_notification (calls (projr (run 2
       [DisconnectWith (error_code 110 system_category), SendDatagram [5] WriteOk,
        SendDatagram [1] (NonBlockingThrows (error_code 9 system_category)),
        ReadCompletion (error_code 125 system_category) [] None] ?r))) =
     [ReceiveDisconnect (error_code 9 system_category)]"
    by (subst b(1)) (simp add: b(2))
  ultimately show ?thesis using h2 h3 h4 h5 by blast
qed

subsection \<open>C4: framing round trip\<close>

text \<open>
  C4. Let the payload have a length that the prefix can hold (\<open>length payload < 256 ^ W\<close>).
  \<open>send_datagram\<close> on a bound endpoint, when the write succeeds, writes the little-endian
  prefix followed by the payload. When an endpoint that waits for a prefix (any reachable
  state with the prefix read outstanding) receives exactly these bytes, it reads the
  payload with a read of \<open>length payload\<close> bytes and hands a datagram equal to the payload
  to its handler.
\<close>

theorem framing_round_trip:
  assumes "length payload < 256 ^ W" "0 < W"
    and "m_socket sender"
    and "run W evs (NetworkClient_new W) = Inr r"
    and "pending_read r = Some (SizeBuf, W, ReceiveSize)"
  shows "step W (SendDatagram payload WriteOk) sender =
           Inr (send_datagram W payload WriteOk sender) \<and>
         calls (send_datagram W payload WriteOk sender) =
           calls sender @ [SocketWrite (le_encode W (length payload) @ payload)] \<and>
         calls (receive_stream W (le_encode W (length payload) @ payload) r) =
           calls r @ [ReadIssued DataBuf (length payload) ReceiveData, ReceiveDatagram payload,
                      ReadIssued SizeBuf W ReceiveSize]"
proof -
  have inv: "client_inv W r" using assms(4) by (rule inv_reachable)
  have "receive_stream W (frame W payload @ []) r = receive_stream W [] (after_message W payload r)"
    using inv assms(5,1,2) by (rule receive_stream_frame)
  also have "\<dots> = after_message W payload r"
    using after_message(2) [OF inv assms(5,1)] assms(2) by (rule receive_stream_end)
  finally have "calls (receive_stream W (frame W payload) r) = calls r @ message_calls W payload"
    using after_message(3) [OF inv assms(5,1)] by simp
  then show ?thesis
    using assms(3) by (simp add: frame_def message_calls_def send_datagram_def Let_def)
qed

theorem framing_round_trip_witness:
  "length [7, 8, 9 :: byte] < 256 ^ 2 \<and> (0::nat) < 2 \<and>
   \<not> isl (run 2 run_bind (NetworkClient_new 2)) \<and>
   m_socket (projr (run 2 run_bind (NetworkClient_new 2))) \<and>
   pending_read (projr (run 2 run_bind (NetworkClient_new 2))) = Some (SizeBuf, 2, ReceiveSize) \<and>
   calls (send_datagram 2 [7, 8, 9] WriteOk (projr (run 2 run_bind (NetworkClient_new 2)))) =
     [ReadIssued SizeBuf 2 ReceiveSize, SocketWrite [3, 0, 7, 8, 9]] \<and>
   calls (receive_stream 2 [3, 0, 7, 8, 9] (projr (run 2 run_bind (NetworkClient_new 2)))) =
     [ReadIssued SizeBuf 2 ReceiveSize, ReadIssued DataBuf 3 ReceiveData,
      ReceiveDatagram [7, 8, 9], ReadIssued SizeBuf 2 ReceiveSize]"
proof -
  let ?r = "projr (run 2 run_bind (NetworkClient_new 2))"
  have h1: "length [7, 8, 9 :: byte] < 256 ^ 2" by simp
  have h2: "(0::nat) < 2" by simp
  have h3: "run 2 run_bind (NetworkClient_new 2) = Inr ?r"
    by (simp add: run_bind_def eval_defs)
  have h4: "pending_read ?r = Some (SizeBuf, 2, ReceiveSize)"
    by (simp add: run_bind_def eval_defs)
  have h5: "m_socket ?r"
    by (simp add: run_bind_def eval_defs)
  have c: "calls ?r = [ReadIssued SizeBuf 2 ReceiveSize]"
    by (simp add: run_bind_def eval_defs)
  have e: "le_encode 2 3 = [3, 0]"
    by (simp add: numeral_2_eq_2)
  have l: "length [7, 8, 9 :: byte] = 3" by simp
  note t = framing_round_trip [OF h1 h2 h5 h3 h4, unfolded e l c]
  have "\<not> isl (run 2 run_bind (NetworkClient_new 2))"
    by (subst h3) simp
  with h1 h2 h4 h5 t show ?thesis by simp
qed

subsection \<open>C5: address discovery fails at bind time\<close>

text \<open>
  C5 asks that a failed address discovery disconnects the endpoint at once with that failure
  as the cause, that no read is started and no message delivered, and that the handler
  receives its disconnect notification with that cause. C5, evaluated on a bind where
  \<open>local_endpoint\<close> reports an error: the cause is recorded, the socket is closed and no read
  is started, but from then on the endpoint only ever calls its socket: the handler is
  never called, so the notification that C5 promises does not happen.
  (\<open>remote_failure_masked\<close>: when only \<open>remote_endpoint\<close> fails, \<open>local_endpoint\<close> overwrites the
  error code and the receive loop starts.)
\<close>

theorem bind_failure_unreported:
  "\<exists>s1. initialize W remote (a, error_code 22 system_category) thr (NetworkClient_new W) = Inr s1 \<and>
      m_local_disconnect s1 \<and> m_disconnect_error s1 = error_code 22 system_category \<and>
      \<not> is_connected s1 \<and> pending_read s1 = None \<and> calls s1 = [SocketClose] \<and>
      (\<forall>later. \<exists>s. run W later s1 = Inr s \<and> list_all socket_only (calls s))"
proof -
  let ?s1 = "(NetworkClient_new W)\<lparr>m_socket := True, keep_alive := True, no_delay := True,
            m_remote := fst remote, m_local := a, m_local_disconnect := True,
            m_disconnect_error := error_code 22 system_category, socket_open := False,
            calls := [SocketClose]\<rparr>"
  have i: "initialize W remote (a, error_code 22 system_category) thr (NetworkClient_new W) = Inr ?s1"
    using failed_22 by (rule failed_bind)
  have q: "m_socket ?s1" "pending_read ?s1 = None"
    by (simp_all add: NetworkClient_new_def)
  have "\<exists>s. run W later ?s1 = Inr s \<and> list_all socket_only (calls s)" for later
  proof -
    from quiet_run [OF q, of W later] obtain s' cs where
      r: "run W later ?s1 = Inr s'" "calls s' = calls ?s1 @ cs" "list_all socket_only cs"
      by blast
    then have "list_all socket_only (calls s')" by simp
    with r(1) show ?thesis by blast
  qed
  moreover have "m_local_disconnect ?s1" "m_disconnect_error ?s1 = error_code 22 system_category"
    "\<not> is_connected ?s1" "calls ?s1 = [SocketClose]"
    by (simp_all add: is_connected_def)
  ultimately show ?thesis using i q(2) by blast
qed

subsection \<open>C6: failed reads and failed writes\<close>

text \<open>
  C6 as stated, that a failed write reaches the finalize step without setting the flag
  \<open>m_local_disconnect\<close>, fails: the \<open>catch\<close> block of \<open>send_datagram\<close> calls \<open>disconnect\<close>, which
  sets the flag, and the handler is not called at that point.
\<close>

theorem write_failure_sets_local_flag:
  "\<not> m_local_disconnect (projr (run 2 run_bind (NetworkClient_new 2))) \<and>
   m_local_disconnect (projr (run 2 run_write_fails (NetworkClient_new 2))) \<and>
   calls (projr (run 2 run_write_fails (NetworkClient_new 2))) =
     [ReadIssued SizeBuf 2 ReceiveSize, SocketClose]"
  by (simp add: run_bind_def run_write_fails_def eval_defs)

text \<open>
  C6, amended. A read that completes with an error, on an endpoint without a recorded local
  disconnect, goes to \<open>handle_disconnect\<close> without setting \<open>m_local_disconnect\<close>, and the cause
  given to the handler is the error of the read. A write that throws goes through
  \<open>disconnect\<close>: it sets \<open>m_local_disconnect\<close>, records the error of the write as the cause and
  closes the socket without calling the handler; when the outstanding read then completes
  with an error, the cause given to the handler is the error of the write.
\<close>

theorem io_failure_causes:
  assumes "run W evs (NetworkClient_new W) = Inr s"
    and "pending_read s = Some p"
    and "\<not> m_local_disconnect s"
    and "failed ec"
    and "thrown out = Some e"
  shows "\<not> m_local_disconnect (read_completion W ec data thr s) \<and>
         calls (read_completion W ec data thr s) = calls s @ [SocketClose, ReceiveDisconnect ec] \<and>
         m_local_disconnect (send_datagram W dg out s) \<and>
         m_disconnect_error (send_datagram W dg out s) = e \<and>
         calls (send_datagram W dg out s) = calls s @ [SocketClose] \<and>
         calls (read_completion W ec data thr (send_datagram W dg out s)) =
           calls s @ [SocketClose, ReceiveDisconnect e]"
proof -
  obtain buf len callback where p: "pending_read s = Some (buf, len, callback)"
    using assms(2) by (cases p) auto
  have inv: "client_inv W s" using assms(1) by (rule inv_reachable)
  note pf = pending_facts(1) [OF inv p]
  have f: "failed ec \<or> length data < len" using assms(4) by simp
  note r = failing_completion_effect(1,6) [OF inv p f, of thr]
  let ?w = "send_datagram W dg out s"
  have w: "?w = disconnect e s \<or> ?w = disconnect e (s\<lparr>non_blocking := True\<rparr>)"
    using assms(5) by (cases out) (simp_all add: thrown_def send_datagram_def)
  then have wf: "m_local_disconnect ?w" "m_disconnect_error ?w = e"
    "calls ?w = calls s @ [SocketClose]" "pending_read ?w = Some (buf, len, callback)"
    using p by (auto simp: disconnect_def socket_close_def)
  have invw: "client_inv W ?w" using inv pf by (rule inv_send_datagram)
  have "calls (read_completion W ec data thr ?w) = calls ?w @ [ReceiveDisconnect e]"
    using failing_completion_effect(1) [OF invw wf(4) f, of thr] wf(1,2) by simp
  with r wf assms(3,4) show ?thesis by simp
qed

theorem io_failure_causes_witness:
  "\<not> isl (run 2 run_bind (NetworkClient_new 2)) \<and>
   pending_read (projr (run 2 run_bind (NetworkClient_new 2))) = Some (SizeBuf, 2, ReceiveSize) \<and>
   \<not> m_local_disconnect (projr (run 2 run_bind (NetworkClient_new 2))) \<and>
   failed (error_code 125 system_category) \<and>
   thrown (WriteThrows (error_code 104 system_category)) = Some (error_code 104 system_category) \<and>
   calls (read_completion 2 (error_code 125 system_category) [] None
           (projr (run 2 run_bind (NetworkClient_new 2)))) =
     [ReadIssued SizeBuf 2 ReceiveSize, SocketClose,
      ReceiveDisconnect (error_code 125 system_category)] \<and>
   calls (read_completion 2 (error_code 125 system_category) [] None
           (send_datagram 2 [1] (WriteThrows (error_code 104 system_category))
              (projr (run 2 run_bind (NetworkClient_new 2))))) =
     [ReadIssued SizeBuf 2 ReceiveSize, SocketClose,
      ReceiveDisconnect (error_code 104 system_category)]"
proof -
  let ?r = "projr (run 2 run_bind (NetworkClient_new 2))"
  have h1: "run 2 run_bind (NetworkClient_new 2) = Inr ?r"
    by (simp add: run_bind_def eval_defs)
  have h2: "pending_read ?r = Some (SizeBuf, 2, ReceiveSize)"
    by (simp add: run_bind_def eval_defs)
  have h3: "\<not> m_local_disconnect ?r"
    by (simp add: run_bind_def eval_defs)
  have h4: "failed (error_code 125 system_category)" by (simp add: failed_def)
  have h5: "thrown (WriteThrows (error_code 104 system_category)) =
              Some (error_code 104 system_category)"
    by (simp add: thrown_def)
  have c: "calls ?r = [ReadIssued SizeBuf 2 ReceiveSize]"
    by (simp add: run_bind_def eval_defs)
  note t = io_failure_causes [OF h1 h2 h3 h4 h5, of "[]" None "[1]", unfolded c]
  have "\<not> isl (run 2 run_bind (NetworkClient_new 2))"
    by (subst h1) simp
  with h2 h3 h4 h5 t show ?thesis by simp
qed

subsection \<open>C7: short reads\<close>

text \<open>
  C7. In either receive state, a read that completes without an error but with fewer bytes
  than asked for ends in \<open>handle_disconnect\<close> with the cause \<open>broken_pipe\<close>: on an endpoint
  without a recorded local disconnect the socket is closed and the handler is notified with
  \<open>broken_pipe\<close> (after a local disconnect the recorded cause is delivered, as in C3). No read
  is outstanding afterwards, and whatever happens later, the endpoint only calls its socket:
  it starts no further read and delivers no further datagram.
\<close>

theorem short_read_disconnects:
  assumes "run W evs (NetworkClient_new W) = Inr s"
    and "pending_read s = Some (buf, len, callback)"
    and "\<not> failed ec" "length data < len"
  shows "read_completion W ec data thr s =
           handle_disconnect epipe ((store buf (take len data) s)\<lparr>pending_read := None\<rparr>) \<and>
         calls (read_completion W ec data thr s) =
           calls s @ (if m_local_disconnect s then [ReceiveDisconnect (m_disconnect_error s)]
                      else [SocketClose, ReceiveDisconnect epipe]) \<and>
         pending_read (read_completion W ec data thr s) = None \<and>
         \<not> is_connected (read_completion W ec data thr s) \<and>
         (\<forall>later. \<exists>s' cs. run W later (read_completion W ec data thr s) = Inr s' \<and>
            calls s' = calls (read_completion W ec data thr s) @ cs \<and>
            list_all socket_only cs)"
proof -
  let ?s1 = "read_completion W ec data thr s"
  have inv: "client_inv W s" using assms(1) by (rule inv_reachable)
  have f: "failed ec \<or> length data < len" using assms(4) by simp
  note e = failing_completion_effect [OF inv assms(2) f, of thr]
  have "\<exists>s' cs. run W later ?s1 = Inr s' \<and> calls s' = calls ?s1 @ cs \<and>
            list_all socket_only cs" for later
    using quiet_run [OF e(3) e(2), of W later] by blast
  with e(1,2,4) assms(3) failing_completion [OF inv assms(2) f, of thr] show ?thesis by simp
qed

theorem short_read_disconnects_witness:
  "\<not> isl (run 2 run_prefix_3 (NetworkClient_new 2)) \<and>
   pending_read (projr (run 2 run_prefix_3 (NetworkClient_new 2))) = Some (DataBuf, 3, ReceiveData) \<and>
   \<not> failed no_error \<and> length [7, 8 :: byte] < 3 \<and>
   calls (read_completion 2 no_error [7, 8] None (projr (run 2 run_prefix_3 (NetworkClient_new 2)))) =
     [ReadIssued SizeBuf 2 ReceiveSize, ReadIssued DataBuf 3 ReceiveData, SocketClose,
      ReceiveDisconnect epipe]"
proof -
  let ?r = "projr (run 2 run_prefix_3 (NetworkClient_new 2))"
  have h1: "run 2 run_prefix_3 (NetworkClient_new 2) = Inr ?r"
    by (simp add: run_prefix_3_def eval_defs)
  have h2: "pending_read ?r = Some (DataBuf, 3, ReceiveData)"
    by (simp add: run_prefix_3_def eval_defs)
  have h3: "\<not> failed no_error" by (simp add: failed_def no_error_def)
  have h4: "length [7, 8 :: byte] < 3" by simp
  have h5: "\<not> m_local_disconnect ?r"
    by (simp add: run_prefix_3_def eval_defs)
  have c: "calls ?r = [ReadIssued SizeBuf 2 ReceiveSize, ReadIssued DataBuf 3 ReceiveData]"
    by (simp add: run_prefix_3_def eval_defs)
  note t = short_read_disconnects [OF h1 h2 h3 h4, of None, unfolded c, THEN conjunct2,
      THEN conjunct1]
  have "\<not> isl (run 2 run_prefix_3 (NetworkClient_new 2))"
    by (subst h1) simp
  with h2 h3 h4 h5 t show ?thesis by simp
qed

subsection \<open>C8: delivery in arrival order\<close>

text \<open>
  C8. An endpoint that waits for a prefix receives an error-free stream that carries the
  messages \<open>M1\<close>, \<open>M2\<close>, \<open>M3\<close> back to back. From then on its calls are, in this order: the
  payload read for \<open>M1\<close>, \<open>receive_datagram\<close> with \<open>M1\<close>, the next prefix read, and the same
  for \<open>M2\<close> and for \<open>M3\<close>. Each datagram is handed over before the next read is started,
  and \<open>receive_disconnect\<close> is not called.
\<close>

theorem delivery_in_order:
  assumes "0 < W" "length M1 < 256 ^ W" "length M2 < 256 ^ W" "length M3 < 256 ^ W"
    and "run W evs (NetworkClient_new W) = Inr s"
    and "pending_read s = Some (SizeBuf, W, ReceiveSize)"
  shows "calls (receive_stream W
           (le_encode W (length M1) @ M1 @ le_encode W (length M2) @ M2 @
            le_encode W (length M3) @ M3) s) =
         calls s @
           [ReadIssued DataBuf (length M1) ReceiveData, ReceiveDatagram M1,
            ReadIssued SizeBuf W ReceiveSize,
            ReadIssued DataBuf (length M2) ReceiveData, ReceiveDatagram M2,
            ReadIssued SizeBuf W ReceiveSize,
            ReadIssued DataBuf (length M3) ReceiveData, ReceiveDatagram M3,
            ReadIssued SizeBuf W ReceiveSize] \<and>
         notifications (receive_stream W
           (le_encode W (length M1) @ M1 @ le_encode W (length M2) @ M2 @
            le_encode W (length M3) @ M3) s) = 0"
proof -
  let ?s1 = "after_message W M1 s"
  let ?s2 = "after_message W M2 ?s1"
  let ?s3 = "after_message W M3 ?s2"
  have inv: "client_inv W s" using assms(5) by (rule inv_reachable)
  note a1 = after_message(1,2,3) [OF inv assms(6,2)]
  note a2 = after_message(1,2,3) [OF a1(1,2) assms(3)]
  note a3 = after_message(1,2,3) [OF a2(1,2) assms(4)]
  have "receive_stream W (frame W M1 @ frame W M2 @ frame W M3) s = ?s3"
    using inv assms(6,1,2,3,4) by (rule receive_stream_frames)
  then have "calls (receive_stream W (frame W M1 @ frame W M2 @ frame W M3) s) =
      calls s @ message_calls W M1 @ message_calls W M2 @ message_calls W M3"
    by (simp add: a1(3) a2(3) a3(3))
  moreover have "filter is_notification (calls s) = []"
    using notifications_awaiting [OF inv assms(6)] by (simp add: notifications_def)
  ultimately show ?thesis
    by (simp add: frame_def message_calls_def notifications_def)
qed

theorem delivery_in_order_witness:
  "(0::nat) < 2 \<and> length [1 :: byte] < 256 ^ 2 \<and> length [2, 3 :: byte] < 256 ^ 2 \<and>
   length ([] :: byte list) < 256 ^ 2 \<and>
   \<not> isl (run 2 run_bind (NetworkClient_new 2)) \<and>
   pending_read (projr (run 2 run_bind (NetworkClient_new 2))) = Some (SizeBuf, 2, ReceiveSize) \<and>
   calls (receive_stream 2 [1, 0, 1, 2, 0, 2, 3, 0, 0]
            (projr (run 2 run_bind (NetworkClient_new 2)))) =
     [ReadIssued SizeBuf 2 ReceiveSize,
      ReadIssued DataBuf 1 ReceiveData, ReceiveDatagram [1], ReadIssued SizeBuf 2 ReceiveSize,
      ReadIssued DataBuf 2 ReceiveData, ReceiveDatagram [2, 3], ReadIssued SizeBuf 2 ReceiveSize,
      ReadIssued DataBuf 0 ReceiveData, ReceiveDatagram [], ReadIssued SizeBuf 2 ReceiveSize]"
proof -
  let ?r = "projr (run 2 run_bind (NetworkClient_new 2))"
  have h0: "(0::nat) < 2" by simp
  have h1: "length [1 :: byte] < 256 ^ 2" by simp
  have h2: "length [2, 3 :: byte] < 256 ^ 2" by simp
  have h3: "length ([] :: byte list) < 256 ^ 2" by simp
  have h4: "run 2 run_bind (NetworkClient_new 2) = Inr ?r"
    by (simp add: run_bind_def eval_defs)
  have h5: "pending_read ?r = Some (SizeBuf, 2, ReceiveSize)"
    by (simp add: run_bind_def eval_defs)
  have c: "calls ?r = [ReadIssued SizeBuf 2 ReceiveSize]"
    by (simp add: run_bind_def eval_defs)
  have l: "length [1 :: byte] = 1" "length [2, 3 :: byte] = 2" "length ([] :: byte list) = 0"
    by simp_all
  have e: "le_encode 2 1 = [1, 0]" "le_encode 2 2 = [2, 0]" "le_encode 2 0 = [0, 0]"
    by (simp_all add: numeral_2_eq_2)
  note t = delivery_in_order [OF h0 h1 h2 h3 h4 h5, unfolded l e c]
  have "\<not> isl (run 2 run_bind (NetworkClient_new 2))"
    by (subst h4) simp
  with h0 h1 h2 h3 h5 t show ?thesis by simp
qed

subsection \<open>C9: a payload read fits the payload buffer\<close>

text \<open>
  C9. In every state that an endpoint reaches from its construction, an outstanding read
  with the handler \<open>receive_data\<close> is a read into the payload buffer of exactly
  \<open>m_data_size\<close> bytes, and the allocated size of the payload buffer is at least that
  length: the payload read never writes past the end of the buffer.
\<close>

theorem payload_read_within_buffer:
  assumes "run W evs (NetworkClient_new W) = Inr s"
    and "pending_read s = Some (buf, len, ReceiveData)"
  shows "buf = DataBuf \<and> len = m_data_size s \<and> len \<le> capacity s"
proof -
  have "client_inv W s" using assms(1) by (rule inv_reachable)
  with assms(2) show ?thesis
    by (auto simp: client_inv_def expected_read_def split: if_splits)
qed

theorem payload_read_within_buffer_witness:
  "\<not> isl (run 2 run_prefix_3 (NetworkClient_new 2)) \<and>
   pending_read (projr (run 2 run_prefix_3 (NetworkClient_new 2))) = Some (DataBuf, 3, ReceiveData) \<and>
   3 \<le> capacity (projr (run 2 run_prefix_3 (NetworkClient_new 2)))"
  using payload_read_within_buffer
    [of 2 run_prefix_3 "projr (run 2 run_prefix_3 (NetworkClient_new 2))" DataBuf 3]
  by (simp add: run_prefix_3_def eval_defs)

subsection \<open>C10: a message of length zero\<close>

text \<open>
  C10. When the prefix read completes with a prefix that decodes to 0, the endpoint starts
  a payload read of zero bytes. When that read completes, the endpoint hands the empty
  datagram to its handler and starts the next prefix read; it stays connected and does not
  call \<open>receive_disconnect\<close>.
\<close>

theorem zero_length_message:
  assumes "run W evs (NetworkClient_new W) = Inr s"
    and "pending_read s = Some (SizeBuf, W, ReceiveSize)"
    and "length pre = W" "le_decode pre = 0"
  shows "pending_read (read_completion W no_error pre None s) = Some (DataBuf, 0, ReceiveData) \<and>
         calls (read_completion W no_error pre None s) =
           calls s @ [ReadIssued DataBuf 0 ReceiveData] \<and>
         calls (read_completion W no_error [] None (read_completion W no_error pre None s)) =
           calls s @ [ReadIssued DataBuf 0 ReceiveData, ReceiveDatagram [],
                      ReadIssued SizeBuf W ReceiveSize] \<and>
         pending_read (read_completion W no_error [] None (read_completion W no_error pre None s)) =
           Some (SizeBuf, W, ReceiveSize) \<and>
         notifications (read_completion W no_error [] None (read_completion W no_error pre None s))
           = 0 \<and>
         is_connected (read_completion W no_error [] None (read_completion W no_error pre None s))
           = is_connected s"
proof -
  let ?s1 = "read_completion W no_error pre None s"
  let ?s2 = "read_completion W no_error [] None ?s1"
  have inv: "client_inv W s" using assms(1) by (rule inv_reachable)
  have s1: "?s1 = s\<lparr>m_size_buf := pre, m_data_size := 0,
       m_data_buf := m_data_buf s, m_is_data := True,
       pending_read := Some (DataBuf, 0, ReceiveData),
       calls := calls s @ [ReadIssued DataBuf 0 ReceiveData]\<rparr>"
    using prefix_completion [OF inv assms(2,3) not_failed_no_error] by (simp add: assms(4))
  have inv1: "client_inv W ?s1" using inv by (rule inv_read_completion)
  have p1: "pending_read ?s1 = Some (DataBuf, 0, ReceiveData)" by (simp add: s1)
  have s2: "?s2 = ?s1\<lparr>m_data_buf := map_option (fill []) (m_data_buf ?s1),
       m_is_data := False,
       pending_read := Some (SizeBuf, W, ReceiveSize),
       calls := calls ?s1 @ [ReceiveDatagram [], ReadIssued SizeBuf W ReceiveSize]\<rparr>"
    using payload_completion [OF inv1 p1 _ not_failed_no_error, of "[]"] by simp
  have inv2: "client_inv W ?s2" using inv1 by (rule inv_read_completion)
  have p2: "pending_read ?s2 = Some (SizeBuf, W, ReceiveSize)" by (subst s2) simp
  have c1: "calls ?s1 = calls s @ [ReadIssued DataBuf 0 ReceiveData]" by (simp add: s1)
  have "calls ?s2 = calls ?s1 @ [ReceiveDatagram [], ReadIssued SizeBuf W ReceiveSize]"
    by (subst s2) simp
  then have c2: "calls ?s2 = calls s @ [ReadIssued DataBuf 0 ReceiveData, ReceiveDatagram [],
                      ReadIssued SizeBuf W ReceiveSize]"
    by (simp add: c1)
  have "socket_open ?s2 = socket_open ?s1" by (subst s2) simp
  moreover have "socket_open ?s1 = socket_open s" by (simp add: s1)
  ultimately have o2: "is_connected ?s2 = is_connected s" by (simp add: is_connected_def)
  show ?thesis
    using p1 c1 c2 p2 notifications_awaiting [OF inv2 p2] o2 by simp
qed

theorem zero_length_message_witness:
  "\<not> isl (run 2 run_bind (NetworkClient_new 2)) \<and>
   pending_read (projr (run 2 run_bind (NetworkClient_new 2))) = Some (SizeBuf, 2, ReceiveSize) \<and>
   length [0, 0 :: byte] = 2 \<and> le_decode [0, 0] = 0 \<and>
   calls (read_completion 2 no_error [] None
           (read_completion 2 no_error [0, 0] None (projr (run 2 run_bind (NetworkClient_new 2))))) =
     [ReadIssued SizeBuf 2 ReceiveSize, ReadIssued DataBuf 0 ReceiveData, ReceiveDatagram [],
      ReadIssued SizeBuf 2 ReceiveSize]"
proof -
  let ?r = "projr (run 2 run_bind (NetworkClient_new 2))"
  have h1: "run 2 run_bind (NetworkClient_new 2) = Inr ?r"
    by (simp add: run_bind_def eval_defs)
  have h2: "pending_read ?r = Some (SizeBuf, 2, ReceiveSize)"
    by (simp add: run_bind_def eval_defs)
  have h3: "length [0, 0 :: byte] = 2" by simp
  have h4: "le_decode [0, 0] = 0" by simp
  have c: "calls ?r = [ReadIssued SizeBuf 2 ReceiveSize]"
    by (simp add: run_bind_def eval_defs)
  note t = zero_length_message [OF h1 h2 h3 h4, unfolded c]
  have "\<not> isl (run 2 run_bind (NetworkClient_new 2))"
    by (subst h1) simp
  with h2 h3 h4 t show ?thesis by simp
qed

end
